theory Spec2Isabelle
  imports Complex_Main "HOL-Library.AList" "HOL-Library.Log_Nat"
begin

section \<open>JavaScript values\<close>

text \<open>
  A JavaScript number is an IEEE 754 binary64 value (a double). A finite double is
  modelled by the rational number it denotes; the two zeros are both 0, which no
  operation of the service tells apart (it divides by constants only, and JSON writes
  both as \<open>0\<close>). \<open>exponent x\<close> is the integer \<open>e\<close> with \<open>2\<^sup>e \<le> |x| < 2\<^sup>e\<^sup>+\<^sup>1\<close>, and \<open>ulp x\<close> the
  distance between the doubles around \<open>x\<close>: 53 significant bits from the exponent -1022
  on, the subnormal spacing \<open>2\<^sup>-\<^sup>1\<^sup>0\<^sup>7\<^sup>4\<close> below. \<open>double x\<close> is the double nearest to \<open>x\<close>, a tie
  going to the one with an even significand: it is the value of a decimal literal, and
  the result of an arithmetic operation whose exact result is \<open>x\<close>.

  The model has neither \<open>Infinity\<close> nor \<open>NaN\<close>. A missing number, which arithmetic turns
  into \<open>NaN\<close>, is \<open>None\<close> where the source can meet one. JavaScript gives \<open>Infinity\<close> for a
  result of magnitude \<open>2\<^sup>1\<^sup>0\<^sup>2\<^sup>4\<close> or more, far above what the service computes: a validated
  mileage or price is at most \<open>2\<^sup>5\<^sup>3 - 1\<close>, and it is multiplied by a few constants below
  1000 and by an age factor that the range of calendar years keeps below \<open>10\<^sup>5\<close>.
\<close>

definition exponent :: "rat \<Rightarrow> int" where
  "exponent x =
     (let (a, b) = quotient_of \<bar>x\<bar>; d = bitlen a - bitlen b
      in if of_int a < 2 powi d * (of_int b :: rat) then d - 1 else d)"

definition round_even :: "rat \<Rightarrow> int" where
  "round_even y =
     (let n = \<lfloor>y\<rfloor>; r = y - of_int n
      in if r < 1 / 2 then n else if 1 / 2 < r then n + 1 else if even n then n else n + 1)"

definition ulp :: "rat \<Rightarrow> rat" where
  "ulp x = 2 powi (max (exponent x) (- 1022) - 52)"

definition double :: "rat \<Rightarrow> rat" where
  "double x = (if x = 0 then 0 else of_int (round_even (x / ulp x)) * ulp x)"

definition is_double :: "rat \<Rightarrow> bool" where
  "is_double x = (double x = x)"

text \<open>The four arithmetic operations on doubles: the exact result, rounded.\<close>

definition fadd :: "rat \<Rightarrow> rat \<Rightarrow> rat" where
  "fadd x y = double (x + y)"

definition fsub :: "rat \<Rightarrow> rat \<Rightarrow> rat" where
  "fsub x y = double (x - y)"

definition fmul :: "rat \<Rightarrow> rat \<Rightarrow> rat" where
  "fmul x y = double (x * y)"

definition fdiv :: "rat \<Rightarrow> rat \<Rightarrow> rat" where
  "fdiv x y = double (x / y)"

text \<open>
  \<open>Math.round\<close> gives the nearest integer, a half going up. The result is exact: a
  double of magnitude \<open>2\<^sup>5\<^sup>2\<close> or more is an integer already.
\<close>

definition Math_round :: "rat \<Rightarrow> rat" where
  "Math_round x = of_int \<lfloor>x + 1 / 2\<rfloor>"

text \<open>
  \<open>s.charAt(i)\<close> is the one-character string at index \<open>i\<close>, or the empty string out of
  range; \<open>s.substring(a, b)\<close> clamps both indices to the length and swaps them when they
  are out of order.
\<close>

definition charAt :: "string \<Rightarrow> nat \<Rightarrow> string" where
  "charAt s i = (if i < length s then [s ! i] else [])"

definition substring :: "string \<Rightarrow> nat \<Rightarrow> nat \<Rightarrow> string" where
  "substring s a b =
     (let a' = min a (length s); b' = min b (length s);
          lo = min a' b'; hi = max a' b'
      in take (hi - lo) (drop lo s))"

text \<open>\<open>xs.join(sep)\<close> on an array of strings.\<close>

fun join :: "string \<Rightarrow> string list \<Rightarrow> string" where
  "join sep [] = []"
| "join sep [x] = x"
| "join sep (x # y # ys) = x @ sep @ join sep (y # ys)"

text \<open>
  \<open>xs.sort(cmp)\<close>: ECMAScript requires the sort to be stable, so for a consistent
  comparator it is the insertion sort that places an element before the first later element
  it does not exceed. The comparator returns a number; a positive result means the
  first argument goes after the second.
\<close>

fun js_insert :: "('a \<Rightarrow> 'a \<Rightarrow> rat) \<Rightarrow> 'a \<Rightarrow> 'a list \<Rightarrow> 'a list" where
  "js_insert cmp x [] = [x]"
| "js_insert cmp x (y # ys) = (if cmp x y \<le> 0 then x # y # ys else y # js_insert cmp x ys)"

definition js_sort :: "('a \<Rightarrow> 'a \<Rightarrow> rat) \<Rightarrow> 'a list \<Rightarrow> 'a list" where
  "js_sort cmp xs = foldr (js_insert cmp) xs []"

datatype js_error = Error string | TypeError string

section \<open>Configuration\<close>

text \<open>
  The four product tokens. The route admits no other token: the validation schema lists
  exactly these.
\<close>

datatype product = Vsc | Gap | Tire | Dent

fun product_token :: "product \<Rightarrow> string" where
  "product_token Vsc = ''vsc''"
| "product_token Gap = ''gap''"
| "product_token Tire = ''tire''"
| "product_token Dent = ''dent''"

definition parse_product :: "string \<Rightarrow> product option" where
  "parse_product s =
     (if s = ''vsc'' then Some Vsc else if s = ''gap'' then Some Gap
      else if s = ''tire'' then Some Tire else if s = ''dent'' then Some Dent else None)"

text \<open>
  \<open>providerConfig.providers\<close>: the registry, in the order of its keys. The base URL and
  the API key of an entry are read by no function modelled here and are left out.
\<close>

record provider_cfg =
  name :: string
  products :: "product list"
  markup :: rat
  priority :: rat

definition providers :: "(string \<times> provider_cfg) list" where
  "providers =
     [(''providerA'', \<lparr>name = ''Provider A'', products = [Vsc, Gap], markup = double 1.2, priority = 1\<rparr>),
      (''providerB'', \<lparr>name = ''Provider B'', products = [Vsc, Tire, Dent], markup = double 1.15, priority = 2\<rparr>),
      (''providerC'', \<lparr>name = ''Provider C'', products = [Gap], markup = double 1.25, priority = 3\<rparr>),
      (''providerD'', \<lparr>name = ''Provider D'', products = [Tire, Dent], markup = double 1.3, priority = 4\<rparr>)]"

text \<open>\<open>stateRestrictions\<close>: product to the states where it may not be sold.\<close>

definition stateRestrictions :: "(product \<times> string list) list" where
  "stateRestrictions = [(Gap, [''NY'', ''CA'']), (Vsc, [])]"

text \<open>\<open>redisConfig.ttl\<close>, in seconds: the default of the third parameter of
  \<open>CacheService.set\<close>. The controller passes 600 itself.\<close>

definition redisConfig_ttl :: nat where
  "redisConfig_ttl = 600"

section \<open>VehicleService\<close>

record vehicle_details =
  vd_vin :: string
  vd_year :: int
  vd_make :: string
  vd_model :: string
  vd_trim :: string
  body_style :: string
  engine :: string
  transmission :: string

text \<open>The tables of the decoders; a code that is not a key decodes to the default.\<close>

definition yearCodes :: "(string \<times> int) list" where
  "yearCodes =
     [(''A'', 2010), (''B'', 2011), (''C'', 2012), (''D'', 2013), (''E'', 2014),
      (''F'', 2015), (''G'', 2016), (''H'', 2017), (''J'', 2018), (''K'', 2019),
      (''L'', 2020), (''M'', 2021), (''N'', 2022), (''P'', 2023), (''R'', 2024)]"

definition makeCodes :: "(string \<times> string) list" where
  "makeCodes =
     [(''A'', ''Audi''), (''B'', ''BMW''), (''C'', ''Chevrolet''), (''D'', ''Dodge''),
      (''F'', ''Ford''), (''G'', ''GMC''), (''H'', ''Honda''), (''J'', ''Jeep''),
      (''K'', ''Kia''), (''L'', ''Lincoln''), (''M'', ''Mercedes''), (''N'', ''Nissan''),
      (''T'', ''Toyota''), (''V'', ''Volkswagen'')]"

definition modelMap :: "(string \<times> string) list" where
  "modelMap =
     [(''F15'', ''F-150''), (''CRV'', ''CR-V''), (''CIV'', ''Civic''), (''ACC'', ''Accord''),
      (''CAM'', ''Camry''), (''RAV'', ''RAV4''), (''SIL'', ''Silverado''),
      (''EQU'', ''Equinox''), (''ESC'', ''Escape''), (''EXP'', ''Explorer'')]"

definition decodeModelYear :: "string \<Rightarrow> int" where
  "decodeModelYear yearCode =
     (case map_of yearCodes yearCode of Some y \<Rightarrow> y | None \<Rightarrow> 2018)"

definition decodeMake :: "string \<Rightarrow> string" where
  "decodeMake makeCode =
     (case map_of makeCodes makeCode of Some m \<Rightarrow> m | None \<Rightarrow> ''Ford'')"

definition decodeModel :: "string \<Rightarrow> string" where
  "decodeModel modelCode =
     (case map_of modelMap modelCode of Some m \<Rightarrow> m | None \<Rightarrow> ''F-150'')"

text \<open>\<open>null\<close> is \<open>None\<close>. The empty string is falsy, and its length is not 17 either.\<close>

definition getVehicleDetails :: "string \<Rightarrow> vehicle_details option" where
  "getVehicleDetails v =
     (if v = [] \<or> length v \<noteq> 17 then None
      else Some \<lparr>vd_vin = v,
                 vd_year = decodeModelYear (charAt v 9),
                 vd_make = decodeMake (charAt v 1),
                 vd_model = decodeModel (substring v 3 6),
                 vd_trim = ''XLT'',
                 body_style = ''Sedan'',
                 engine = ''2.0L I4'',
                 transmission = ''Automatic''\<rparr>)"

definition zipPrefixes :: "(string \<times> string) list" where
  "zipPrefixes =
     [(''0'', ''CT''), (''1'', ''NY''), (''2'', ''DC''), (''3'', ''FL''), (''4'', ''MI''),
      (''5'', ''LA''), (''6'', ''TX''), (''7'', ''TX''), (''8'', ''CO''), (''9'', ''CA'')]"

definition getStateFromZip :: "string \<Rightarrow> string" where
  "getStateFromZip z =
     (case map_of zipPrefixes (charAt z 0) of Some s \<Rightarrow> s | None \<Rightarrow> ''CA'')"

section \<open>Request bodies and validation\<close>

text \<open>
  A dealer identifier in a body is absent (\<open>None\<close>), \<open>null\<close> or a string. Only a
  non-empty string is truthy.
\<close>

datatype dealer_val = DealerNull | DealerStr string

fun truthy_dealer :: "dealer_val option \<Rightarrow> bool" where
  "truthy_dealer (Some (DealerStr s)) = (s \<noteq> [])"
| "truthy_dealer _ = False"

text \<open>
  The body as a client sends it and \<open>express.json()\<close> parses it. A field is \<open>None\<close> when
  the key is missing; a field that is present has the JSON type the schema names for it,
  and the body has no other key. A number of the body is the double that the parser read:
  \<open>double 0.1\<close> for the text \<open>0.1\<close>.
\<close>

record raw_body =
  raw_vin :: "string option"
  raw_zip :: "string option"
  raw_mileage :: "rat option"
  raw_price :: "rat option"
  raw_products :: "string list option"
  raw_dealer_id :: "dealer_val option"

text \<open>The body as \<open>getQuotes\<close> destructures it.\<close>

record quote_body =
  body_vin :: "string option"
  body_zip :: "string option"
  body_mileage :: "int option"
  body_price :: "rat option"
  body_products :: "product list option"
  body_dealer_id :: "dealer_val option"

text \<open>
  The class \<open>ApiError\<close> of middleware/errorHandler: an error with a message, a status
  code and an error code. Its \<open>details\<close> are copied into the body of the error response
  and read by nothing else; they are left out. \<open>ApiError.badRequest\<close> is the error of
  status 400.
\<close>

record api_error =
  err_message :: string
  statusCode :: nat
  err_code :: string

definition badRequest :: "string \<Rightarrow> api_error" where
  "badRequest message = \<lparr>err_message = message, statusCode = 400, err_code = ''BAD_REQUEST''\<rparr>"

text \<open>
  \<open>errorHandler\<close>, the last middleware of the application, answers for an error handed to
  \<open>next\<close>: with the status code of the error, or 500 when it has none or the code is 0;
  with its error code, or \<open>INTERNAL_ERROR\<close>; and with its message, or a default for the
  empty message. An error that is no \<open>ApiError\<close> has neither status code nor error code.
\<close>

fun js_message :: "js_error \<Rightarrow> string" where
  "js_message (Error message) = message"
| "js_message (TypeError message) = message"

record error_response =
  res_status :: nat
  res_code :: string
  res_message :: string

definition errorHandler :: "api_error + js_error \<Rightarrow> error_response" where
  "errorHandler err =
     (case err of
        Inl a \<Rightarrow>
          \<lparr>res_status = (if statusCode a = 0 then 500 else statusCode a),
           res_code = (if err_code a = [] then ''INTERNAL_ERROR'' else err_code a),
           res_message =
             (if err_message a = [] then ''Internal Server Error'' else err_message a)\<rparr>
      | Inr e \<Rightarrow>
          \<lparr>res_status = 500, res_code = ''INTERNAL_ERROR'',
           res_message =
             (if js_message e = [] then ''Internal Server Error'' else js_message e)\<rparr>)"

definition is_digit :: "char \<Rightarrow> bool" where
  "is_digit c = (c \<in> set ''0123456789'')"

definition MAX_SAFE_INTEGER :: rat where
  "MAX_SAFE_INTEGER = 2 ^ 53 - 1"

text \<open>
  The schema of \<open>validateQuoteRequest\<close>, field by field. A number outside the safe-integer
  range is refused by the schema library's number type. A missing product list is
  replaced by the default \<open>['vsc']\<close>.
\<close>

definition valid_vin :: "string option \<Rightarrow> bool" where
  "valid_vin v = (case v of None \<Rightarrow> False | Some s \<Rightarrow> length s = 17)"

definition valid_zip :: "string option \<Rightarrow> bool" where
  "valid_zip z = (case z of None \<Rightarrow> False | Some s \<Rightarrow> length s = 5 \<and> list_all is_digit s)"

definition valid_mileage :: "rat option \<Rightarrow> bool" where
  "valid_mileage m =
     (case m of None \<Rightarrow> False
      | Some x \<Rightarrow> x \<le> MAX_SAFE_INTEGER \<and> of_int \<lfloor>x\<rfloor> = x \<and> 0 \<le> x)"

definition valid_price :: "rat option \<Rightarrow> bool" where
  "valid_price p = (case p of None \<Rightarrow> False | Some x \<Rightarrow> x \<le> MAX_SAFE_INTEGER \<and> 0 \<le> x)"

definition valid_products :: "string list option \<Rightarrow> bool" where
  "valid_products ps =
     (case ps of None \<Rightarrow> True | Some xs \<Rightarrow> list_all (\<lambda>s. parse_product s \<noteq> None) xs)"

definition validateQuoteRequest :: "raw_body \<Rightarrow> api_error + quote_body" where
  "validateQuoteRequest b =
     (if valid_vin (raw_vin b) \<and> valid_zip (raw_zip b) \<and> valid_mileage (raw_mileage b)
         \<and> valid_price (raw_price b) \<and> valid_products (raw_products b)
      then Inr \<lparr>body_vin = raw_vin b,
                body_zip = raw_zip b,
                body_mileage = map_option floor (raw_mileage b),
                body_price = raw_price b,
                body_products =
                  (case raw_products b of
                     None \<Rightarrow> Some [Vsc]
                   | Some xs \<Rightarrow> Some (List.map_filter parse_product xs)),
                body_dealer_id = raw_dealer_id b\<rparr>
      else Inl (badRequest ''Invalid request data''))"

section \<open>ProviderService\<close>

record req_vehicle =
  v_vin :: string
  v_year :: int
  v_make :: string
  v_model :: string
  v_trim :: string
  v_mileage :: "int option"

record req_customer =
  zip :: string
  state :: string

record req_dealer =
  dealer_ident :: string
  dealer_name :: string

record req_options =
  opt_price :: "rat option"
  opt_products :: "product list"

record provider_request =
  vehicle :: req_vehicle
  customer :: req_customer
  dealer :: req_dealer
  options :: req_options

record provider_ref =
  ref_id :: string
  ref_name :: string
  logo_url :: string

record quote_term =
  months :: int
  miles :: "int option"

datatype cov_val = CovBool bool | CovNum int

record raw_quote =
  product_type :: product
  product_id :: string
  provider :: provider_ref
  quote_name :: string
  description :: string
  qterm :: quote_term
  deductible :: int
  retail_price :: rat
  dealer_cost :: rat
  coverage :: "(string \<times> cov_val) list"
  exclusions :: "string list"
  sample_contract_url :: string

record provider_response =
  quotes :: "raw_quote list"
  resp_eligibility :: string
  resp_disclaimer :: string

definition provider_ref_of :: "string \<Rightarrow> provider_cfg \<Rightarrow> provider_ref" where
  "provider_ref_of providerId p =
     \<lparr>ref_id = providerId, ref_name = name p,
      logo_url = ''https://example.com/logos/'' @ providerId @ ''.png''\<rparr>"

text \<open>
  Reading a property of \<open>this.providers[providerId]\<close> throws a \<open>TypeError\<close> when the
  identifier is not a key of the registry.
\<close>

definition undefined_provider :: js_error where
  "undefined_provider = TypeError ''Cannot read properties of undefined''"

subsection \<open>Vehicle service contracts\<close>

definition vscPremium :: "string \<Rightarrow> provider_cfg \<Rightarrow> rat \<Rightarrow> raw_quote" where
  "vscPremium providerId p basePrice =
     \<lparr>product_type = Vsc,
      product_id = providerId @ ''_vsc_premium_36_36'',
      provider = provider_ref_of providerId p,
      quote_name = ''Premium Coverage'',
      description = ''Comprehensive coverage for your vehicle'',
      qterm = \<lparr>months = 36, miles = Some 36000\<rparr>,
      deductible = 100,
      retail_price = Math_round basePrice,
      dealer_cost = Math_round (fmul basePrice (double 0.6)),
      coverage =
        [(''engine'', CovBool True), (''transmission'', CovBool True),
         (''drivetrain'', CovBool True), (''electrical'', CovBool True),
         (''steering'', CovBool True), (''suspension'', CovBool True),
         (''brakes'', CovBool True), (''air_conditioning'', CovBool True),
         (''fuel_system'', CovBool True), (''high_tech'', CovBool True)],
      exclusions = [''Normal wear and tear'', ''Maintenance items'', ''Pre-existing conditions''],
      sample_contract_url =
        ''https://example.com/contracts/'' @ providerId @ ''_premium_36_36.pdf''\<rparr>"

definition vscStandard :: "string \<Rightarrow> provider_cfg \<Rightarrow> rat \<Rightarrow> raw_quote" where
  "vscStandard providerId p basePrice =
     \<lparr>product_type = Vsc,
      product_id = providerId @ ''_vsc_standard_48_48'',
      provider = provider_ref_of providerId p,
      quote_name = ''Standard Coverage'',
      description = ''Essential coverage for your vehicle'',
      qterm = \<lparr>months = 48, miles = Some 48000\<rparr>,
      deductible = 100,
      retail_price = Math_round basePrice,
      dealer_cost = Math_round (fmul basePrice (double 0.6)),
      coverage =
        [(''engine'', CovBool True), (''transmission'', CovBool True),
         (''drivetrain'', CovBool True), (''electrical'', CovBool True),
         (''steering'', CovBool True), (''suspension'', CovBool True),
         (''brakes'', CovBool True), (''air_conditioning'', CovBool True),
         (''fuel_system'', CovBool False), (''high_tech'', CovBool False)],
      exclusions =
        [''Normal wear and tear'', ''Maintenance items'', ''Pre-existing conditions'',
         ''High-tech components''],
      sample_contract_url =
        ''https://example.com/contracts/'' @ providerId @ ''_standard_48_48.pdf''\<rparr>"

definition vscBasic :: "string \<Rightarrow> provider_cfg \<Rightarrow> rat \<Rightarrow> raw_quote" where
  "vscBasic providerId p basePrice =
     \<lparr>product_type = Vsc,
      product_id = providerId @ ''_vsc_basic_60_60'',
      provider = provider_ref_of providerId p,
      quote_name = ''Basic Coverage'',
      description = ''Basic powertrain coverage for your vehicle'',
      qterm = \<lparr>months = 60, miles = Some 60000\<rparr>,
      deductible = 250,
      retail_price = Math_round basePrice,
      dealer_cost = Math_round (fmul basePrice (double 0.6)),
      coverage =
        [(''engine'', CovBool True), (''transmission'', CovBool True),
         (''drivetrain'', CovBool True), (''electrical'', CovBool False),
         (''steering'', CovBool True), (''suspension'', CovBool False),
         (''brakes'', CovBool True), (''air_conditioning'', CovBool False),
         (''fuel_system'', CovBool False), (''high_tech'', CovBool False)],
      exclusions =
        [''Normal wear and tear'', ''Maintenance items'', ''Pre-existing conditions'',
         ''Electrical components'', ''High-tech components'', ''Suspension components''],
      sample_contract_url =
        ''https://example.com/contracts/'' @ providerId @ ''_basic_60_60.pdf''\<rparr>"

text \<open>
  The tiers a vehicle qualifies for, each with the base amount of its price, in the order
  the source tests them.
\<close>

definition vscTiers ::
  "int \<Rightarrow> int \<Rightarrow> ((string \<Rightarrow> provider_cfg \<Rightarrow> rat \<Rightarrow> raw_quote) \<times> rat) list" where
  "vscTiers vehicleAge m =
     (if vehicleAge \<le> 7 \<and> m \<le> 85000 then [(vscPremium, 800)] else []) @
     (if vehicleAge \<le> 10 \<and> m \<le> 100000 then [(vscStandard, 700)] else []) @
     (if vehicleAge \<le> 12 \<and> m \<le> 120000 then [(vscBasic, 500)] else [])"

definition ageFactor :: "int \<Rightarrow> rat" where
  "ageFactor vehicleAge = fadd 1 (fmul (of_int vehicleAge) (double 0.1))"

definition mileageFactor :: "int \<Rightarrow> rat" where
  "mileageFactor m = fadd 1 (fmul (fdiv (of_int m) 20000) (double 0.15))"

text \<open>
  \<open>currentYear\<close> is \<open>new Date().getFullYear()\<close>. The year and the mileage of the vehicle
  are integers, on which \<open>parseInt\<close> is the identity; a missing mileage parses to \<open>NaN\<close>,
  every comparison with which is false, so that no tier is offered. The provider is looked
  up when the first quote is built.
\<close>

definition generateVscQuotes ::
  "int \<Rightarrow> string \<Rightarrow> req_vehicle \<Rightarrow> js_error + raw_quote list" where
  "generateVscQuotes currentYear providerId v =
     (case v_mileage v of
        None \<Rightarrow> Inr []
      | Some m \<Rightarrow>
          let vehicleAge = currentYear - v_year v in
          if vehicleAge > 12 \<or> m > 150000 then Inr []
          else
            let tiers = vscTiers vehicleAge m in
            if tiers = [] then Inr []
            else
              (case map_of providers providerId of
                 None \<Rightarrow> Inl undefined_provider
               | Some p \<Rightarrow>
                   Inr (map (\<lambda>(mk, base).
                          mk providerId p
                            (fmul (fmul base (ageFactor vehicleAge)) (mileageFactor m))) tiers)))"

subsection \<open>GAP, tire and dent quotes\<close>

definition gapPremium :: "string \<Rightarrow> provider_cfg \<Rightarrow> rat \<Rightarrow> raw_quote" where
  "gapPremium providerId p basePrice =
     \<lparr>product_type = Gap,
      product_id = providerId @ ''_gap_premium'',
      provider = provider_ref_of providerId p,
      quote_name = ''Premium GAP'',
      description = ''Comprehensive GAP coverage with insurance deductible coverage'',
      qterm = \<lparr>months = 36, miles = None\<rparr>,
      deductible = 0,
      retail_price = Math_round (fmul basePrice (double 1.2)),
      dealer_cost = Math_round (fmul basePrice (double 0.7)),
      coverage =
        [(''loan_payoff'', CovBool True), (''insurance_deductible'', CovBool True),
         (''max_benefit'', CovNum 10000)],
      exclusions = [''Commercial vehicles'', ''Exotic vehicles'', ''Vehicles over $100,000''],
      sample_contract_url =
        ''https://example.com/contracts/'' @ providerId @ ''_gap_premium.pdf''\<rparr>"

definition gapStandard :: "string \<Rightarrow> provider_cfg \<Rightarrow> rat \<Rightarrow> raw_quote" where
  "gapStandard providerId p basePrice =
     \<lparr>product_type = Gap,
      product_id = providerId @ ''_gap_standard'',
      provider = provider_ref_of providerId p,
      quote_name = ''Standard GAP'',
      description = ''Basic GAP coverage'',
      qterm = \<lparr>months = 36, miles = None\<rparr>,
      deductible = 0,
      retail_price = Math_round basePrice,
      dealer_cost = Math_round (fmul basePrice (double 0.6)),
      coverage =
        [(''loan_payoff'', CovBool True), (''insurance_deductible'', CovBool False),
         (''max_benefit'', CovNum 7500)],
      exclusions =
        [''Commercial vehicles'', ''Exotic vehicles'', ''Vehicles over $100,000'',
         ''Insurance deductible''],
      sample_contract_url =
        ''https://example.com/contracts/'' @ providerId @ ''_gap_standard.pdf''\<rparr>"

text \<open>A missing price and the price 0 are both falsy.\<close>

definition generateGapQuotes :: "string \<Rightarrow> req_options \<Rightarrow> js_error + raw_quote list" where
  "generateGapQuotes providerId opts =
     (case opt_price opts of
        None \<Rightarrow> Inr []
      | Some vehiclePrice \<Rightarrow>
          if vehiclePrice = 0 then Inr []
          else
            let basePrice = fmul vehiclePrice (double 0.02) in
            (case map_of providers providerId of
               None \<Rightarrow> Inl undefined_provider
             | Some p \<Rightarrow> Inr [gapPremium providerId p basePrice, gapStandard providerId p basePrice]))"

definition tirePremium :: "string \<Rightarrow> provider_cfg \<Rightarrow> raw_quote" where
  "tirePremium providerId p =
     \<lparr>product_type = Tire,
      product_id = providerId @ ''_tire_premium'',
      provider = provider_ref_of providerId p,
      quote_name = ''Premium Tire & Wheel'',
      description = ''Comprehensive tire and wheel protection with roadside assistance'',
      qterm = \<lparr>months = 36, miles = None\<rparr>,
      deductible = 0,
      retail_price = 495,
      dealer_cost = 295,
      coverage =
        [(''tire_replacement'', CovBool True), (''wheel_replacement'', CovBool True),
         (''roadside_assistance'', CovBool True)],
      exclusions = [''Racing or off-road use'', ''Cosmetic damage'', ''Pre-existing damage''],
      sample_contract_url =
        ''https://example.com/contracts/'' @ providerId @ ''_tire_premium.pdf''\<rparr>"

definition tireBasic :: "string \<Rightarrow> provider_cfg \<Rightarrow> raw_quote" where
  "tireBasic providerId p =
     \<lparr>product_type = Tire,
      product_id = providerId @ ''_tire_basic'',
      provider = provider_ref_of providerId p,
      quote_name = ''Basic Tire & Wheel'',
      description = ''Basic tire and wheel protection'',
      qterm = \<lparr>months = 36, miles = None\<rparr>,
      deductible = 50,
      retail_price = 395,
      dealer_cost = 235,
      coverage =
        [(''tire_replacement'', CovBool True), (''wheel_replacement'', CovBool False),
         (''roadside_assistance'', CovBool False)],
      exclusions =
        [''Racing or off-road use'', ''Cosmetic damage'', ''Pre-existing damage'',
         ''Wheel replacement'', ''Roadside assistance''],
      sample_contract_url =
        ''https://example.com/contracts/'' @ providerId @ ''_tire_basic.pdf''\<rparr>"

definition generateTireQuotes :: "string \<Rightarrow> js_error + raw_quote list" where
  "generateTireQuotes providerId =
     (case map_of providers providerId of
        None \<Rightarrow> Inl undefined_provider
      | Some p \<Rightarrow> Inr [tirePremium providerId p, tireBasic providerId p])"

definition dentRepair :: "string \<Rightarrow> provider_cfg \<Rightarrow> raw_quote" where
  "dentRepair providerId p =
     \<lparr>product_type = Dent,
      product_id = providerId @ ''_dent_repair'',
      provider = provider_ref_of providerId p,
      quote_name = ''Dent & Ding Protection'',
      description = ''Paintless dent repair coverage'',
      qterm = \<lparr>months = 36, miles = None\<rparr>,
      deductible = 0,
      retail_price = 395,
      dealer_cost = 235,
      coverage = [(''paintless_dent_repair'', CovBool True), (''unlimited_repairs'', CovBool True)],
      exclusions =
        [''Dents larger than 4 inches'', ''Dents with paint damage'', ''Pre-existing damage''],
      sample_contract_url =
        ''https://example.com/contracts/'' @ providerId @ ''_dent_repair.pdf''\<rparr>"

definition generateDentQuotes :: "string \<Rightarrow> js_error + raw_quote list" where
  "generateDentQuotes providerId =
     (case map_of providers providerId of
        None \<Rightarrow> Inl undefined_provider
      | Some p \<Rightarrow> Inr [dentRepair providerId p])"

subsection \<open>The simulated provider and the fan-out\<close>

fun generateQuotes ::
  "int \<Rightarrow> string \<Rightarrow> provider_request \<Rightarrow> product \<Rightarrow> js_error + raw_quote list" where
  "generateQuotes currentYear providerId request Vsc =
     generateVscQuotes currentYear providerId (vehicle request)"
| "generateQuotes currentYear providerId request Gap =
     generateGapQuotes providerId (options request)"
| "generateQuotes currentYear providerId request Tire = generateTireQuotes providerId"
| "generateQuotes currentYear providerId request Dent = generateDentQuotes providerId"

text \<open>
  The loop over the requested products: a product the provider does not offer is skipped,
  the quotes of the others are appended in turn, and the first error ends the loop.
\<close>

fun collectQuotes ::
  "(product \<Rightarrow> js_error + raw_quote list) \<Rightarrow> product list \<Rightarrow> product list
     \<Rightarrow> js_error + raw_quote list" where
  "collectQuotes gen offered [] = Inr []"
| "collectQuotes gen offered (productType # rest) =
     (if productType \<notin> set offered then collectQuotes gen offered rest
      else
        (case gen productType of
           Inl e \<Rightarrow> Inl e
         | Inr qs \<Rightarrow>
             (case collectQuotes gen offered rest of
                Inl e \<Rightarrow> Inl e
              | Inr others \<Rightarrow> Inr (qs @ others))))"

definition simulateProviderResponse ::
  "int \<Rightarrow> string \<Rightarrow> provider_request \<Rightarrow> js_error + provider_response" where
  "simulateProviderResponse currentYear providerId request =
     (let wanted = opt_products (options request);
          collected =
            (case map_of providers providerId of
               None \<Rightarrow> if wanted = [] then Inr [] else Inl undefined_provider
             | Some p \<Rightarrow>
                 collectQuotes (generateQuotes currentYear providerId request) (products p) wanted)
      in case collected of
           Inl e \<Rightarrow> Inl e
         | Inr qs \<Rightarrow>
             Inr \<lparr>quotes = qs,
                  resp_eligibility = ''eligible'',
                  resp_disclaimer =
                    ''Coverage is subject to terms and conditions of the service contract.''\<rparr>)"

definition getQuotesFromProvider ::
  "int \<Rightarrow> string \<Rightarrow> provider_request \<Rightarrow> js_error + provider_response" where
  "getQuotesFromProvider currentYear providerId request =
     (case map_of providers providerId of
        None \<Rightarrow> Inl (Error (''Provider '' @ providerId @ '' not found''))
      | Some p \<Rightarrow> simulateProviderResponse currentYear providerId request)"

text \<open>
  The identifiers of the providers that offer one of the requested products, by priority.
  The comparator reads the priority from the registry; here it is read from the entry the
  identifier came from.
\<close>

definition getEligibleProviders :: "product list \<Rightarrow> string list" where
  "getEligibleProviders wanted =
     map fst
       (js_sort (\<lambda>a b. fsub (priority (snd a)) (priority (snd b)))
          (filter (\<lambda>(providerId, p). list_ex (\<lambda>x. x \<in> set (products p)) wanted) providers))"

text \<open>
  The fan-out. \<open>call\<close> is the call of one provider (\<open>getQuotesFromProvider\<close> in the
  source); a call that throws is caught and its result is \<open>null\<close>. The result has one
  entry for each eligible provider, in the order of the calls.
\<close>

definition getQuotesFromAllProviders ::
  "(string \<Rightarrow> provider_request \<Rightarrow> js_error + provider_response) \<Rightarrow> provider_request
     \<Rightarrow> (string \<times> provider_response option) list" where
  "getQuotesFromAllProviders call request =
     map (\<lambda>providerId.
            (providerId,
             case call providerId request of Inl e \<Rightarrow> None | Inr r \<Rightarrow> Some r))
       (getEligibleProviders (opt_products (options request)))"

section \<open>CacheService\<close>

text \<open>
  Time is a count of seconds. The Redis client is modelled by what its commands promise: a
  value stored with \<open>EX ttl\<close> is kept with the instant at which it expires. The in-memory
  cache is a map together with the pending timers, each with the instant at which it fires
  and the key it deletes. A command of the Redis client may throw; \<open>fails\<close> says whether
  it does.
\<close>

type_synonym 'v redis = "string \<rightharpoonup> ('v \<times> nat)"

record 'v memory_cache =
  mstore :: "string \<rightharpoonup> 'v"
  timers :: "(nat \<times> string) list"

record 'v cache_service =
  isConnected :: bool
  client :: "'v redis option"
  memoryCache :: "'v memory_cache option"

definition memory_get :: "'v memory_cache option \<Rightarrow> string \<Rightarrow> 'v option" where
  "memory_get m key = (case m of None \<Rightarrow> None | Some mc \<Rightarrow> mstore mc key)"

definition CacheService_get :: "bool \<Rightarrow> 'v cache_service \<Rightarrow> string \<Rightarrow> 'v option" where
  "CacheService_get fails cs key =
     (case client cs of
        None \<Rightarrow> memory_get (memoryCache cs) key
      | Some r \<Rightarrow>
          if isConnected cs
          then (if fails then memory_get (memoryCache cs) key else map_option fst (r key))
          else memory_get (memoryCache cs) key)"

definition memory_set :: "nat \<Rightarrow> string \<Rightarrow> 'v \<Rightarrow> nat \<Rightarrow> 'v memory_cache \<Rightarrow> 'v memory_cache" where
  "memory_set now key v ttl mc =
     mc\<lparr>mstore := (mstore mc)(key \<mapsto> v), timers := timers mc @ [(now + ttl, key)]\<rparr>"

definition memory_fallback ::
  "bool \<Rightarrow> nat \<Rightarrow> 'v cache_service \<Rightarrow> string \<Rightarrow> 'v \<Rightarrow> nat \<Rightarrow> bool \<times> 'v cache_service" where
  "memory_fallback otherwise now cs key v ttl =
     (case memoryCache cs of
        None \<Rightarrow> (otherwise, cs)
      | Some mc \<Rightarrow> (True, cs\<lparr>memoryCache := Some (memory_set now key v ttl mc)\<rparr>))"

text \<open>
  \<open>set\<close> answers \<open>true\<close> when neither store is there, and \<open>false\<close> only when the Redis
  command threw and there is no in-memory cache.
\<close>

definition CacheService_set ::
  "bool \<Rightarrow> nat \<Rightarrow> 'v cache_service \<Rightarrow> string \<Rightarrow> 'v \<Rightarrow> nat \<Rightarrow> bool \<times> 'v cache_service" where
  "CacheService_set fails now cs key v ttl =
     (case client cs of
        None \<Rightarrow> memory_fallback True now cs key v ttl
      | Some r \<Rightarrow>
          if isConnected cs
          then (if fails then memory_fallback False now cs key v ttl
                else (True, cs\<lparr>client := Some (r(key \<mapsto> (v, now + ttl)))\<rparr>))
          else memory_fallback True now cs key v ttl)"

text \<open>
  The passing of time up to \<open>now\<close>: Redis drops the values that have expired, and the
  timers that are due fire, each deleting its key.
\<close>

definition redis_expire :: "nat \<Rightarrow> 'v redis \<Rightarrow> 'v redis" where
  "redis_expire now r =
     (\<lambda>k. case r k of
            None \<Rightarrow> None
          | Some (v, expiry) \<Rightarrow> if expiry \<le> now then None else Some (v, expiry))"

definition fire_timers :: "nat \<Rightarrow> 'v memory_cache \<Rightarrow> 'v memory_cache" where
  "fire_timers now mc =
     \<lparr>mstore = (\<lambda>k. if list_ex (\<lambda>(t, k'). k' = k \<and> t \<le> now) (timers mc) then None
                     else mstore mc k),
      timers = filter (\<lambda>(t, k). now < t) (timers mc)\<rparr>"

definition elapse :: "nat \<Rightarrow> 'v cache_service \<Rightarrow> 'v cache_service" where
  "elapse now cs =
     cs\<lparr>client := map_option (redis_expire now) (client cs),
        memoryCache := map_option (fire_timers now) (memoryCache cs)\<rparr>"

section \<open>QuoteController\<close>

record agg_quote =
  aq_id :: string
  aq_provider :: string
  aq_name :: string
  aq_term :: int
  aq_mileage :: "int option"
  aq_deductible :: int
  price :: rat
  aq_coverage :: "(string \<times> cov_val) list"
  tags :: "string list"

record restriction_info =
  restricted_products :: "product list"
  restricted_state :: string

text \<open>The empty object of \<open>state_restrictions\<close> is \<open>None\<close>.\<close>

record response_meta =
  vehicle_eligibility :: string
  coverage_disclaimer :: string
  state_restrictions :: "restriction_info option"

text \<open>
  The response object: the product buckets in the order of their keys, and \<open>meta\<close>. The
  cache holds the JSON text of a response; the model keeps the response that the text
  denotes, which is what \<open>JSON.parse\<close> gives back for a text of \<open>JSON.stringify\<close>.
\<close>

type_synonym bucket_table = "(product \<times> agg_quote list) list"

record envelope =
  buckets :: bucket_table
  meta :: response_meta

datatype http_result = Json200 envelope | NextApiError api_error | NextThrown js_error

fun status_of :: "http_result \<Rightarrow> nat" where
  "status_of (Json200 e) = 200"
| "status_of (NextApiError err) = res_status (errorHandler (Inl err))"
| "status_of (NextThrown err) = res_status (errorHandler (Inr err))"

subsection \<open>State restrictions\<close>

definition isRestricted :: "string \<Rightarrow> product \<Rightarrow> bool" where
  "isRestricted st p =
     (case map_of stateRestrictions p of None \<Rightarrow> False | Some states \<Rightarrow> st \<in> set states)"

definition restrictedProducts :: "string \<Rightarrow> product list \<Rightarrow> product list" where
  "restrictedProducts st wanted = filter (isRestricted st) wanted"

definition availableProducts :: "product list \<Rightarrow> product list \<Rightarrow> product list" where
  "availableProducts wanted stateRestrictedProducts =
     filter (\<lambda>p. p \<notin> set stateRestrictedProducts) wanted"

subsection \<open>Markup and merge\<close>

text \<open>\<open>provider.markup || 1\<close>: a markup of 0 is falsy.\<close>

definition toAggregated :: "provider_cfg \<Rightarrow> raw_quote \<Rightarrow> agg_quote" where
  "toAggregated p q =
     (let retailPrice = fmul (retail_price q) (if markup p = 0 then 1 else markup p)
      in \<lparr>aq_id = product_id q,
          aq_provider = ref_name (provider q),
          aq_name = quote_name q,
          aq_term = months (qterm q),
          aq_mileage = miles (qterm q),
          aq_deductible = deductible q,
          price = fdiv (Math_round (fmul retailPrice 100)) 100,
          aq_coverage = coverage q,
          tags = []\<rparr>)"

text \<open>
  \<open>aggregatedQuotes[product] = []\<close> for each available product: a key keeps the place of
  its first assignment.
\<close>

definition initBuckets :: "product list \<Rightarrow> bucket_table" where
  "initBuckets available = fold (\<lambda>p acc. AList.update p [] acc) available []"

text \<open>A loop whose body may throw: the first error ends it.\<close>

fun forEachE :: "('a \<Rightarrow> 's \<Rightarrow> js_error + 's) \<Rightarrow> 'a list \<Rightarrow> 's \<Rightarrow> js_error + 's" where
  "forEachE f [] s = Inr s"
| "forEachE f (x # xs) s = (case f x s of Inl e \<Rightarrow> Inl e | Inr s' \<Rightarrow> forEachE f xs s')"

text \<open>
  One quote of one provider: when its product is available, the provider is looked up
  in the registry and the quote is pushed to the bucket of its product.
\<close>

definition processQuote ::
  "product list \<Rightarrow> string \<Rightarrow> raw_quote \<Rightarrow> bucket_table \<Rightarrow> js_error + bucket_table" where
  "processQuote available providerId q acc =
     (if product_type q \<in> set available
      then (case map_of providers providerId of
              None \<Rightarrow> Inl undefined_provider
            | Some p \<Rightarrow>
                Inr (AList.map_entry (product_type q) (\<lambda>qs. qs @ [toAggregated p q]) acc))
      else Inr acc)"

definition processProvider ::
  "product list \<Rightarrow> string \<times> provider_response option \<Rightarrow> bucket_table
     \<Rightarrow> js_error + bucket_table" where
  "processProvider available entry acc =
     (case snd entry of
        None \<Rightarrow> Inr acc
      | Some r \<Rightarrow> forEachE (processQuote available (fst entry)) (quotes r) acc)"

definition aggregate ::
  "product list \<Rightarrow> (string \<times> provider_response option) list \<Rightarrow> js_error + bucket_table" where
  "aggregate available providerQuotes =
     forEachE (processProvider available) providerQuotes (initBuckets available)"

subsection \<open>Sorting and tagging\<close>

text \<open>\<open>quotes[i].tags.push(t)\<close>, done only where the source has checked that the index is in range.\<close>

definition pushTag :: "nat \<Rightarrow> string \<Rightarrow> agg_quote list \<Rightarrow> agg_quote list" where
  "pushTag i t qs = (if i < length qs then qs[i := (qs ! i)\<lparr>tags := tags (qs ! i) @ [t]\<rparr>] else qs)"

definition sortByPrice :: "agg_quote list \<Rightarrow> agg_quote list" where
  "sortByPrice qs = js_sort (\<lambda>a b. fsub (price a) (price b)) qs"

definition tagQuotes :: "dealer_val option \<Rightarrow> agg_quote list \<Rightarrow> agg_quote list" where
  "tagQuotes dealer_id qs =
     (if qs = [] then qs
      else
        let sorted = sortByPrice qs;
            best = pushTag 0 ''Best Value'' sorted;
            popularIndex = min 1 (length best - 1);
            popular = pushTag popularIndex ''Most Popular'' best
        in if truthy_dealer dealer_id \<and> length popular > 2
           then pushTag 2 ''Dealer Recommended'' popular
           else popular)"

definition addTags :: "dealer_val option \<Rightarrow> bucket_table \<Rightarrow> bucket_table" where
  "addTags dealer_id table = map (\<lambda>(product, qs). (product, tagQuotes dealer_id qs)) table"

subsection \<open>getQuotes\<close>

text \<open>
  What the handler takes from its surroundings: \<open>numToString\<close> is the conversion of a
  number to the string a template literal inserts, \<open>callProvider\<close> the call of one provider,
  \<open>get_fails\<close> and \<open>set_fails\<close> say whether the Redis command of the cache lookup and of the
  cache write throws, and \<open>now\<close> is the time of the request.
\<close>

record env =
  numToString :: "rat \<Rightarrow> string"
  callProvider :: "string \<Rightarrow> provider_request \<Rightarrow> js_error + provider_response"
  get_fails :: bool
  set_fails :: bool
  now :: nat

text \<open>What a request leaves behind: the response, the providers called, and the cache.\<close>

record outcome =
  response :: http_result
  called :: "string list"
  cache :: "envelope cache_service"

definition interpolate :: "(rat \<Rightarrow> string) \<Rightarrow> rat option \<Rightarrow> string" where
  "interpolate str x = (case x of None \<Rightarrow> ''undefined'' | Some n \<Rightarrow> str n)"

definition dealerOrNone :: "dealer_val option \<Rightarrow> string" where
  "dealerOrNone dealer_id =
     (case dealer_id of Some (DealerStr s) \<Rightarrow> if s = [] then ''none'' else s | _ \<Rightarrow> ''none'')"

definition cacheKeyOf ::
  "(rat \<Rightarrow> string) \<Rightarrow> string \<Rightarrow> string \<Rightarrow> int option \<Rightarrow> rat option \<Rightarrow> product list
     \<Rightarrow> dealer_val option \<Rightarrow> string" where
  "cacheKeyOf str v z m pr wanted dealer_id =
     ''quotes:'' @ v @ '':'' @ z @ '':'' @ interpolate str (map_option of_int m) @ '':'' @
     interpolate str pr @ '':'' @ join '','' (map product_token wanted) @ '':'' @
     dealerOrNone dealer_id"

definition ineligibleEnvelope :: "product list \<Rightarrow> string \<Rightarrow> envelope" where
  "ineligibleEnvelope stateRestrictedProducts st =
     \<lparr>buckets = [],
      meta = \<lparr>vehicle_eligibility = ''ineligible'',
              coverage_disclaimer = ''No products available in your state.'',
              state_restrictions =
                Some \<lparr>restricted_products = stateRestrictedProducts, restricted_state = st\<rparr>\<rparr>\<rparr>"

definition eligibleEnvelope :: "bucket_table \<Rightarrow> product list \<Rightarrow> string \<Rightarrow> envelope" where
  "eligibleEnvelope table stateRestrictedProducts st =
     \<lparr>buckets = table,
      meta = \<lparr>vehicle_eligibility = ''eligible'',
              coverage_disclaimer =
                ''Coverage is subject to terms and conditions of the service contract.'',
              state_restrictions =
                (if length stateRestrictedProducts > 0
                 then Some \<lparr>restricted_products = stateRestrictedProducts, restricted_state = st\<rparr>
                 else None)\<rparr>\<rparr>"

definition providerRequestOf ::
  "string \<Rightarrow> vehicle_details \<Rightarrow> int option \<Rightarrow> string \<Rightarrow> string \<Rightarrow> dealer_val option
     \<Rightarrow> rat option \<Rightarrow> product list \<Rightarrow> provider_request" where
  "providerRequestOf v vehicleDetails m z st dealer_id pr available =
     \<lparr>vehicle = \<lparr>v_vin = v, v_year = vd_year vehicleDetails, v_make = vd_make vehicleDetails,
                 v_model = vd_model vehicleDetails, v_trim = vd_trim vehicleDetails,
                 v_mileage = m\<rparr>,
      customer = \<lparr>zip = z, state = st\<rparr>,
      dealer = \<lparr>dealer_ident =
                  (case dealer_id of
                     Some (DealerStr s) \<Rightarrow> if s = [] then ''direct'' else s
                   | _ \<Rightarrow> ''direct''),
                dealer_name =
                  (if truthy_dealer dealer_id then ''Dealer Partner'' else ''Direct Consumer'')\<rparr>,
      options = \<lparr>opt_price = pr, opt_products = available\<rparr>\<rparr>"

definition requiredFields :: api_error where
  "requiredFields = badRequest ''VIN, ZIP, and product list are required.''"

definition invalidVin :: api_error where
  "invalidVin = badRequest ''Invalid VIN or vehicle details not found''"

text \<open>
  The handler from the cache miss on: vehicle lookup, state restrictions, the short cut when
  nothing is available, the fan-out, the merge, the tags, and the cache write. An error
  thrown on the way is handed to \<open>next\<close>.
\<close>

definition computeQuotes ::
  "env \<Rightarrow> envelope cache_service \<Rightarrow> string \<Rightarrow> string \<Rightarrow> string \<Rightarrow> int option \<Rightarrow> rat option
     \<Rightarrow> product list \<Rightarrow> dealer_val option \<Rightarrow> outcome" where
  "computeQuotes e cs cacheKey v z m pr wanted dealer_id =
     (case getVehicleDetails v of
        None \<Rightarrow> \<lparr>response = NextApiError invalidVin, called = [], cache = cs\<rparr>
      | Some vehicleDetails \<Rightarrow>
          let st = getStateFromZip z;
              stateRestrictedProducts = restrictedProducts st wanted;
              available = availableProducts wanted stateRestrictedProducts
          in if length available = 0
             then \<lparr>response = Json200 (ineligibleEnvelope stateRestrictedProducts st),
                   called = [], cache = cs\<rparr>
             else
               let providerRequest =
                     providerRequestOf v vehicleDetails m z st dealer_id pr available;
                   providerQuotes = getQuotesFromAllProviders (callProvider e) providerRequest
               in (case aggregate available providerQuotes of
                     Inl err \<Rightarrow>
                       \<lparr>response = NextThrown err, called = map fst providerQuotes, cache = cs\<rparr>
                   | Inr aggregatedQuotes \<Rightarrow>
                       let resp = eligibleEnvelope (addTags dealer_id aggregatedQuotes)
                                    stateRestrictedProducts st
                       in \<lparr>response = Json200 resp,
                           called = map fst providerQuotes,
                           cache = snd (CacheService_set (set_fails e) (now e) cs cacheKey resp 600)\<rparr>))"

definition getQuotes :: "env \<Rightarrow> envelope cache_service \<Rightarrow> quote_body \<Rightarrow> outcome" where
  "getQuotes e cs b =
     (case (body_vin b, body_zip b, body_products b) of
        (Some v, Some z, Some wanted) \<Rightarrow>
          if v = [] \<or> z = []
          then \<lparr>response = NextApiError requiredFields, called = [], cache = cs\<rparr>
          else
            let cacheKey =
                  cacheKeyOf (numToString e) v z (body_mileage b) (body_price b) wanted
                    (body_dealer_id b)
            in (case CacheService_get (get_fails e) cs cacheKey of
                  Some cachedQuotes \<Rightarrow>
                    \<lparr>response = Json200 cachedQuotes, called = [], cache = cs\<rparr>
                | None \<Rightarrow>
                    computeQuotes e cs cacheKey v z (body_mileage b) (body_price b) wanted
                      (body_dealer_id b))
      | _ \<Rightarrow> \<lparr>response = NextApiError requiredFields, called = [], cache = cs\<rparr>)"

text \<open>The route \<open>POST /api/quotes\<close>: validation, then the handler on the validated body.\<close>

definition postQuotes :: "env \<Rightarrow> envelope cache_service \<Rightarrow> raw_body \<Rightarrow> outcome" where
  "postQuotes e cs raw =
     (case validateQuoteRequest raw of
        Inl err \<Rightarrow> \<lparr>response = NextApiError err, called = [], cache = cs\<rparr>
      | Inr b \<Rightarrow> getQuotes e cs b)"

text \<open>The surroundings of the shipped service: every provider is the simulated one.\<close>

definition simulated :: "(rat \<Rightarrow> string) \<Rightarrow> int \<Rightarrow> nat \<Rightarrow> env" where
  "simulated str currentYear t =
     \<lparr>numToString = str, callProvider = getQuotesFromProvider currentYear,
      get_fails = False, set_fails = False, now = t\<rparr>"

section \<open>Notions used in the statements\<close>

text \<open>A quote without its tags.\<close>

definition untag :: "agg_quote \<Rightarrow> agg_quote" where
  "untag q = q\<lparr>tags := []\<rparr>"

text \<open>
  What one entry of the fan-out contributes to the bucket of a product, and the bucket as
  the fan-out fills it: the contributions of the providers in the order of the calls, each
  in the order the provider returned its quotes.
\<close>

definition contribution :: "product \<Rightarrow> string \<times> provider_response option \<Rightarrow> agg_quote list" where
  "contribution p entry =
     (case snd entry of
        None \<Rightarrow> []
      | Some r \<Rightarrow>
          (case map_of providers (fst entry) of
             None \<Rightarrow> []
           | Some cfg \<Rightarrow> map (toAggregated cfg) (filter (\<lambda>q. product_type q = p) (quotes r))))"

definition fanoutBucket :: "product \<Rightarrow> (string \<times> provider_response option) list \<Rightarrow> agg_quote list" where
  "fanoutBucket p providerQuotes = concat (map (contribution p) providerQuotes)"

text \<open>A table given by its keys and the bucket of each key; the keys of the buckets in the order of their first assignment.\<close>

definition tabulate :: "product list \<Rightarrow> (product \<Rightarrow> agg_quote list) \<Rightarrow> bucket_table" where
  "tabulate ks f = map (\<lambda>p. (p, f p)) ks"

definition keyOrder :: "product list \<Rightarrow> product list" where
  "keyOrder available = fold (\<lambda>p ks. if p \<in> set ks then ks else ks @ [p]) available []"

text \<open>
  The products of a request that are available in the state of its ZIP code; the cache key
  of a body; whether the cache lookup of a request misses; the request handed to the
  providers, and the results of the fan-out for it.
\<close>

definition availableFor :: "string \<Rightarrow> product list \<Rightarrow> product list" where
  "availableFor z wanted = availableProducts wanted (restrictedProducts (getStateFromZip z) wanted)"

definition fingerprint :: "(rat \<Rightarrow> string) \<Rightarrow> quote_body \<Rightarrow> string" where
  "fingerprint str b =
     cacheKeyOf str (case body_vin b of None \<Rightarrow> ''undefined'' | Some v \<Rightarrow> v)
       (case body_zip b of None \<Rightarrow> ''undefined'' | Some z \<Rightarrow> z)
       (body_mileage b) (body_price b)
       (case body_products b of None \<Rightarrow> [] | Some wanted \<Rightarrow> wanted)
       (body_dealer_id b)"

definition cacheMiss :: "env \<Rightarrow> envelope cache_service \<Rightarrow> quote_body \<Rightarrow> bool" where
  "cacheMiss e cs b =
     (CacheService_get (get_fails e) cs (fingerprint (numToString e) b) = None)"

definition requestOf :: "quote_body \<Rightarrow> provider_request option" where
  "requestOf b =
     (case (body_vin b, body_zip b, body_products b) of
        (Some v, Some z, Some wanted) \<Rightarrow>
          (case getVehicleDetails v of
             None \<Rightarrow> None
           | Some vehicleDetails \<Rightarrow>
               Some (providerRequestOf v vehicleDetails (body_mileage b) z (getStateFromZip z)
                       (body_dealer_id b) (body_price b) (availableFor z wanted)))
      | _ \<Rightarrow> None)"

definition fanoutOf :: "env \<Rightarrow> quote_body \<Rightarrow> (string \<times> provider_response option) list" where
  "fanoutOf e b =
     (case requestOf b of
        None \<Rightarrow> []
      | Some request \<Rightarrow> getQuotesFromAllProviders (callProvider e) request)"

text \<open>
  A provider call whose failure is replaced by an answer without quotes.
\<close>

definition absorbFailures ::
  "(string \<Rightarrow> provider_request \<Rightarrow> js_error + provider_response)
     \<Rightarrow> string \<Rightarrow> provider_request \<Rightarrow> js_error + provider_response" where
  "absorbFailures call providerId request =
     (case call providerId request of
        Inl err \<Rightarrow>
          Inr \<lparr>quotes = [], resp_eligibility = ''eligible'',
               resp_disclaimer =
                 ''Coverage is subject to terms and conditions of the service contract.''\<rparr>
      | Inr r \<Rightarrow> Inr r)"

section \<open>The service over time\<close>

text \<open>
  The states of the cache service that the running service can be in. It starts as the
  constructor leaves it; \<open>initialize\<close> creates the Redis client, and creates the in-memory
  cache when connecting fails; the connection comes and goes; time passes; and requests to
  the route are handled one after the other. The conversion of numbers to strings never
  produces a colon.
\<close>

definition colonFree :: "(rat \<Rightarrow> string) \<Rightarrow> bool" where
  "colonFree str = (\<forall>x. CHR '':'' \<notin> set (str x))"

inductive reachable :: "envelope cache_service \<Rightarrow> bool" where
  constructed: "reachable \<lparr>isConnected = False, client = None, memoryCache = None\<rparr>"
| client_created: "reachable cs \<Longrightarrow> client cs = None \<Longrightarrow> reachable (cs\<lparr>client := Some Map.empty\<rparr>)"
| connect_failed:
    "reachable cs \<Longrightarrow> memoryCache cs = None \<Longrightarrow>
     reachable (cs\<lparr>memoryCache := Some \<lparr>mstore = Map.empty, timers = []\<rparr>, isConnected := False\<rparr>)"
| connection_event: "reachable cs \<Longrightarrow> reachable (cs\<lparr>isConnected := up\<rparr>)"
| time_passes: "reachable cs \<Longrightarrow> reachable (elapse t cs)"
| request:
    "reachable cs \<Longrightarrow> colonFree (numToString e) \<Longrightarrow> reachable (cache (postQuotes e cs raw))"

text \<open>
  The keys held by either store, and the keys that the handler can have written: the
  cache keys of validated requests for which some product is available.
\<close>

definition storedKeys :: "'v cache_service \<Rightarrow> string set" where
  "storedKeys cs =
     (case client cs of None \<Rightarrow> {} | Some r \<Rightarrow> dom r) \<union>
     (case memoryCache cs of None \<Rightarrow> {} | Some mc \<Rightarrow> dom (mstore mc))"

definition eligibleKey :: "string \<Rightarrow> bool" where
  "eligibleKey k =
     (\<exists>raw b str z wanted.
        validateQuoteRequest raw = Inr b \<and> colonFree str \<and> k = fingerprint str b
        \<and> body_zip b = Some z \<and> body_products b = Some wanted \<and> availableFor z wanted \<noteq> [])"

text \<open>What follows the first token in the joined product list.\<close>

definition tokensTail :: "product list \<Rightarrow> string" where
  "tokensTail ps = (if ps = [] then [] else CHR '','' # join '','' (map product_token ps))"

text \<open>
  The setting of the replay of a cached response. A request is calm when no command of the
  Redis client throws while it is handled. The service uses Redis while it is connected and
  has a client, and the in-memory cache otherwise. The service is caching for a key when
  the store it uses is there and, if that is the in-memory cache, no timer set by an
  earlier write of the key is still pending (such a timer would delete a new entry of the
  key before its time). \<open>served\<close> is the cache after a request handled at its time, all
  timers due by then having fired, and \<open>run\<close> handles a list of requests in turn, with no
  change of the connection in between. An entry is live until \<open>T\<close> when the store in use
  holds it, to expire or be deleted at \<open>T\<close> and not before.
\<close>

definition calm :: "env \<Rightarrow> bool" where
  "calm e = (\<not> get_fails e \<and> \<not> set_fails e)"

definition usesRedis :: "'v cache_service \<Rightarrow> bool" where
  "usesRedis cs = (isConnected cs \<and> client cs \<noteq> None)"

definition caching :: "'v cache_service \<Rightarrow> string \<Rightarrow> bool" where
  "caching cs k =
     (if usesRedis cs then True
      else (case memoryCache cs of
              None \<Rightarrow> False
            | Some mc \<Rightarrow> list_all (\<lambda>entry. snd entry \<noteq> k) (timers mc)))"

definition served :: "env \<Rightarrow> raw_body \<Rightarrow> envelope cache_service \<Rightarrow> envelope cache_service" where
  "served e raw cs = cache (postQuotes e (elapse (now e) cs) raw)"

fun run :: "(env \<times> raw_body) list \<Rightarrow> envelope cache_service \<Rightarrow> envelope cache_service" where
  "run [] cs = cs"
| "run ((e, raw) # rest) cs = run rest (served e raw cs)"

definition live :: "string \<Rightarrow> 'v \<Rightarrow> nat \<Rightarrow> 'v cache_service \<Rightarrow> bool" where
  "live k v T cs =
     (if usesRedis cs then (\<exists>r. client cs = Some r \<and> r k = Some (v, T))
      else (\<exists>mc. memoryCache cs = Some mc \<and> mstore mc k = Some v
              \<and> (T, k) \<in> set (timers mc)
              \<and> (\<forall>entry \<in> set (timers mc). snd entry = k \<longrightarrow> T \<le> fst entry)))"

text \<open>
  A response that the handler computed, on a cache miss, for a validated request; the
  values held by either store.
\<close>

definition computedResponse :: "envelope \<Rightarrow> bool" where
  "computedResponse env =
     (\<exists>raw b e cs. validateQuoteRequest raw = Inr b \<and> cacheMiss e cs b
        \<and> response (getQuotes e cs b) = Json200 env)"

definition storedValues :: "'v cache_service \<Rightarrow> 'v set" where
  "storedValues cs =
     (case client cs of None \<Rightarrow> {} | Some r \<Rightarrow> fst ` ran r) \<union>
     (case memoryCache cs of None \<Rightarrow> {} | Some mc \<Rightarrow> ran (mstore mc))"

definition redisValues :: "'v redis option \<Rightarrow> 'v set" where
  "redisValues c = (case c of None \<Rightarrow> {} | Some r \<Rightarrow> fst ` ran r)"

definition memoryValues :: "'v memory_cache option \<Rightarrow> 'v set" where
  "memoryValues m = (case m of None \<Rightarrow> {} | Some mc \<Rightarrow> ran (mstore mc))"

section \<open>Example requests\<close>

text \<open>
  The inputs at which the theorems below are instantiated. \<open>demoToString\<close> writes the
  integer part of a number in decimal digits, which is what the conversion gives for the
  non-negative integers of the examples. \<open>freshCache\<close> is the cache service as its
  constructor leaves it. In \<open>failingEnv\<close> the call of provider D throws.
\<close>

function decimal :: "nat \<Rightarrow> string" where
  "decimal n =
     (if n < 10 then [''0123456789'' ! n]
      else decimal (n div 10) @ [''0123456789'' ! (n mod 10)])"
  by pat_completeness auto
termination
  by (relation "measure id") auto

declare decimal.simps [simp del]

definition demoToString :: "rat \<Rightarrow> string" where
  "demoToString x = decimal (nat \<lfloor>x\<rfloor>)"

definition demoEnv :: env where
  "demoEnv = simulated demoToString 2026 0"

definition failingEnv :: env where
  "failingEnv = demoEnv\<lparr>callProvider :=
     (\<lambda>providerId request.
        if providerId = ''providerD'' then Inl (Error ''provider unavailable'')
        else getQuotesFromProvider 2026 providerId request)\<rparr>"

definition freshCache :: "envelope cache_service" where
  "freshCache = \<lparr>isConnected = False, client = None, memoryCache = None\<rparr>"
definition demoRaw :: raw_body where
  "demoRaw =
     \<lparr>raw_vin = Some ''1FTFW1ET5LFC10312'', raw_zip = Some ''60601'', raw_mileage = Some 30000,
      raw_price = Some 25000, raw_products = Some [''tire'', ''dent''],
      raw_dealer_id = Some (DealerStr ''D-42'')\<rparr>"
definition demoBody :: quote_body where
  "demoBody =
     \<lparr>body_vin = Some ''1FTFW1ET5LFC10312'', body_zip = Some ''60601'', body_mileage = Some 30000,
      body_price = Some 25000, body_products = Some [Tire, Dent],
      body_dealer_id = Some (DealerStr ''D-42'')\<rparr>"

definition noProductsRaw :: raw_body where
  "noProductsRaw = demoRaw\<lparr>raw_products := None\<rparr>"

definition noVinRaw :: raw_body where
  "noVinRaw = demoRaw\<lparr>raw_vin := None\<rparr>"

definition demoVehicle :: req_vehicle where
  "demoVehicle =
     \<lparr>v_vin = ''1FTFW1ET5LFC10312'', v_year = 2020, v_make = ''Ford'', v_model = ''F-150'',
      v_trim = ''XLT'', v_mileage = Some 14000\<rparr>"

definition directRaw :: raw_body where
  "directRaw = demoRaw\<lparr>raw_dealer_id := Some (DealerStr ''direct'')\<rparr>"

definition directBody :: quote_body where
  "directBody = demoBody\<lparr>body_dealer_id := Some (DealerStr ''direct'')\<rparr>"

definition demoRequest :: provider_request where
  "demoRequest =
     providerRequestOf ''1FTFW1ET5LFC10312''
       \<lparr>vd_vin = ''1FTFW1ET5LFC10312'', vd_year = 2020, vd_make = ''Ford'', vd_model = ''F-150'',
        vd_trim = ''XLT'', body_style = ''Sedan'', engine = ''2.0L I4'',
        transmission = ''Automatic''\<rparr>
       (Some 30000) ''60601'' ''TX'' (Some (DealerStr ''D-42'')) (Some 25000) [Tire, Dent]"

definition memoryOnly :: "envelope cache_service" where
  "memoryOnly = \<lparr>isConnected = False, client = None,
                 memoryCache = Some \<lparr>mstore = Map.empty, timers = []\<rparr>\<rparr>"

definition gapRaw :: raw_body where
  "gapRaw =
     \<lparr>raw_vin = Some ''1FTFW1ET5LFC10312'', raw_zip = Some ''90210'', raw_mileage = Some 30000,
      raw_price = Some 25000, raw_products = Some [''gap''], raw_dealer_id = None\<rparr>"

definition gapBody :: quote_body where
  "gapBody =
     \<lparr>body_vin = Some ''1FTFW1ET5LFC10312'', body_zip = Some ''90210'', body_mileage = Some 30000,
      body_price = Some 25000, body_products = Some [Gap], body_dealer_id = None\<rparr>"

definition midEnv :: env where
  "midEnv = simulated demoToString 2026 100"


definition noneDealerRaw :: raw_body where
  "noneDealerRaw = demoRaw\<lparr>raw_dealer_id := Some (DealerStr ''none'')\<rparr>"

definition noDealerRaw :: raw_body where
  "noDealerRaw = demoRaw\<lparr>raw_dealer_id := None\<rparr>"

text \<open>
  A request for GAP cover on a vehicle of a very high price, which the schema admits, and
  of a quote its identifier with its price.
\<close>

definition bigRaw :: raw_body where
  "bigRaw = demoRaw\<lparr>raw_price := Some 8047282048391080, raw_products := Some [''gap'']\<rparr>"

definition bigBody :: quote_body where
  "bigBody = demoBody\<lparr>body_price := Some 8047282048391080, body_products := Some [Gap]\<rparr>"

definition priceSummary :: "agg_quote \<Rightarrow> string \<times> rat" where
  "priceSummary q = (aq_id q, price q)"





text \<open>
  The bucket of a product in a response (empty when there is none), and the quotes of a
  generator that did not throw.
\<close>

fun bucketOf :: "http_result \<Rightarrow> product \<Rightarrow> agg_quote list" where
  "bucketOf (Json200 env) p = (case map_of (buckets env) p of None \<Rightarrow> [] | Some qs \<Rightarrow> qs)"
| "bucketOf (NextApiError err) p = []"
| "bucketOf (NextThrown err) p = []"

fun quotesOf :: "js_error + raw_quote list \<Rightarrow> raw_quote list" where
  "quotesOf (Inr qs) = qs"
| "quotesOf (Inl err) = []"

text \<open>
  Of a quote: its name, its retail price, its dealer cost, and the rounded 0.6 of its
  retail price.
\<close>

definition vscSummary :: "raw_quote \<Rightarrow> string \<times> rat \<times> rat \<times> rat" where
  "vscSummary q =
     (quote_name q, retail_price q, dealer_cost q, Math_round (fmul (retail_price q) (double 0.6)))"

definition demoTires :: "agg_quote list" where
  "demoTires = bucketOf (response (getQuotes demoEnv freshCache demoBody)) Tire"

definition failingDents :: "agg_quote list" where
  "failingDents = bucketOf (response (getQuotes failingEnv freshCache demoBody)) Dent"

definition directTires :: "agg_quote list" where
  "directTires = bucketOf (response (postQuotes demoEnv freshCache directRaw)) Tire"

definition noDealerBody :: quote_body where
  "noDealerBody = demoBody\<lparr>body_dealer_id := None\<rparr>"

definition noDealerTires :: "agg_quote list" where
  "noDealerTires = bucketOf (response (getQuotes demoEnv freshCache noDealerBody)) Tire"

section \<open>Doubles: lemmas\<close>

text \<open>
  The exponent brackets the magnitude; rounding moves a number by at most half a unit in
  the last place, which from the smallest normal double on is a relative error of at most
  \<open>2\<^sup>-\<^sup>5\<^sup>3\<close>; a number with a significand of 53 bits and an exponent in range is a
  double, so are the integers up to \<open>2\<^sup>5\<^sup>3\<close>; rounding is idempotent; and the difference of
  two doubles rounds to a number of the same sign, so that a comparator that subtracts
  orders doubles as they are ordered.
\<close>

lemma bitlen_powi:
  assumes "0 < a"
  shows "2 powi (bitlen a - 1) \<le> (of_int a :: rat)" "(of_int a :: rat) < 2 powi (bitlen a)"
proof -
  from assms have pos: "1 \<le> bitlen a" by (auto simp: bitlen_alt_def)
  from bitlen_bounds [OF assms]
  have lo: "2 ^ nat (bitlen a - 1) \<le> a" and hi: "a < 2 ^ nat (bitlen a)" by auto
  from lo have "(of_int (2 ^ nat (bitlen a - 1)) :: rat) \<le> of_int a" by (simp only: of_int_le_iff)
  with pos show "2 powi (bitlen a - 1) \<le> (of_int a :: rat)" by (simp add: power_int_def)
  from hi have "(of_int a :: rat) < of_int (2 ^ nat (bitlen a))" by (simp only: of_int_less_iff)
  with pos show "(of_int a :: rat) < 2 powi (bitlen a)" by (simp add: power_int_def)
qed

lemma exponent_bounds:
  assumes "x \<noteq> 0"
  shows "2 powi exponent x \<le> \<bar>x\<bar>" and "\<bar>x\<bar> < 2 powi (exponent x + 1)"
proof -
  obtain a b where q: "quotient_of \<bar>x\<bar> = (a, b)" by (cases "quotient_of \<bar>x\<bar>")
  from quotient_of_denom_pos [OF q] have b: "0 < b" .
  from quotient_of_div [OF q] have x: "\<bar>x\<bar> = of_int a / of_int b" .
  from assms have "0 < \<bar>x\<bar>" by simp
  with x b have a: "0 < a" by (simp add: zero_less_divide_iff)
  define d where "d = bitlen a - bitlen b"
  have B: "(0 :: rat) < of_int b" using b by simp
  note la = bitlen_powi [OF a] and lb = bitlen_powi [OF b]
  have e: "exponent x = (if of_int a < 2 powi d * (of_int b :: rat) then d - 1 else d)"
    by (simp add: exponent_def q d_def Let_def)
  have p1: "(2 :: rat) powi (d - 1) * 2 powi bitlen b = 2 powi (bitlen a - 1)"
    by (simp add: d_def power_int_add [symmetric])
  have p2: "(2 :: rat) powi (d + 1) * 2 powi (bitlen b - 1) = 2 powi bitlen a"
    by (simp add: d_def power_int_add [symmetric])
  have low: "(2 :: rat) powi (d - 1) * of_int b \<le> of_int a"
  proof -
    have "(2 :: rat) powi (d - 1) * of_int b \<le> 2 powi (d - 1) * 2 powi bitlen b"
      using lb(2) by (intro mult_left_mono) (simp_all add: less_imp_le)
    with p1 la(1) show ?thesis by simp
  qed
  have high: "(of_int a :: rat) < 2 powi (d + 1) * of_int b"
  proof -
    have "(2 :: rat) powi (d + 1) * 2 powi (bitlen b - 1) \<le> 2 powi (d + 1) * of_int b"
      using lb(1) by (intro mult_left_mono) simp_all
    with p2 la(2) show ?thesis by simp
  qed
  show "2 powi exponent x \<le> \<bar>x\<bar>"
    using low B by (auto simp: e x pos_le_divide_eq not_less)
  show "\<bar>x\<bar> < 2 powi (exponent x + 1)"
    using high B by (auto simp: e x pos_divide_less_eq)
qed

lemma round_even_near: "\<bar>of_int (round_even y) - y\<bar> \<le> 1 / 2"
proof -
  have "of_int \<lfloor>y\<rfloor> \<le> y" "y < of_int \<lfloor>y\<rfloor> + 1" by linarith+
  then show ?thesis by (auto simp: round_even_def Let_def abs_le_iff)
qed

lemma round_even_of_int [simp]: "round_even (of_int n) = n"
  by (simp add: round_even_def)

lemma ulp_pos [simp]: "0 < ulp x"
  by (simp add: ulp_def)

lemma ulp_nonneg [simp]: "0 \<le> ulp x" "\<not> ulp x \<le> 0"
  by (simp_all add: ulp_def not_le)

lemma ulp_nonzero [simp]: "ulp x \<noteq> 0"
  by (simp add: ulp_def)

lemma double_error: "\<bar>double x - x\<bar> \<le> ulp x / 2"
proof (cases "x = 0")
  case True
  then show ?thesis by (simp add: double_def less_imp_le)
next
  case False
  have "double x - x = (of_int (round_even (x / ulp x)) - x / ulp x) * ulp x"
    using False by (simp add: double_def left_diff_distrib)
  then have "\<bar>double x - x\<bar> = \<bar>of_int (round_even (x / ulp x)) - x / ulp x\<bar> * ulp x"
    by (simp add: abs_mult less_imp_le)
  also have "\<dots> \<le> 1 / 2 * ulp x"
    by (intro mult_right_mono round_even_near) (simp add: less_imp_le)
  finally show ?thesis by simp
qed



lemma powi_less_cancel: "(2 :: rat) powi a < 2 powi b \<Longrightarrow> a < b"
proof (rule ccontr)
  assume less: "(2 :: rat) powi a < 2 powi b" and "\<not> a < b"
  then have "b \<le> a" by simp
  then have "(2 :: rat) powi b \<le> 2 powi a" by (rule power_int_increasing) simp
  with less show False by simp
qed

lemma exponent_normal:
  assumes "2 powi (- 1022) \<le> \<bar>x\<bar>"
  shows "- 1022 \<le> exponent x"
proof -
  from assms have "x \<noteq> 0" by auto
  from exponent_bounds(2) [OF this] assms have "(2 :: rat) powi (- 1022) < 2 powi (exponent x + 1)"
    by simp
  from powi_less_cancel [OF this] show ?thesis by simp
qed

lemma double_relative_error:
  assumes "2 powi (- 1022) \<le> \<bar>x\<bar>"
  shows "\<bar>double x - x\<bar> \<le> \<bar>x\<bar> / 2 ^ 53"
proof -
  from assms have nz: "x \<noteq> 0" by auto
  from exponent_normal [OF assms] have "ulp x = 2 powi (exponent x - 52)"
    by (simp add: ulp_def max_def)
  also have "\<dots> = 2 powi exponent x / 2 ^ 52"
    by (simp add: power_int_diff)
  also have "\<dots> \<le> \<bar>x\<bar> / 2 ^ 52"
    using exponent_bounds(1) [OF nz] by (simp add: divide_right_mono)
  finally have "ulp x / 2 \<le> \<bar>x\<bar> / 2 ^ 53" by simp
  with double_error [of x] show ?thesis by simp
qed

lemma double_of_multiple:
  assumes "x = of_int n * ulp x"
  shows "double x = x"
proof (cases "x = 0")
  case True
  then show ?thesis by (simp add: double_def)
next
  case False
  from assms have "x / ulp x = of_int n"
    by (metis nonzero_mult_div_cancel_right ulp_nonzero)
  with False assms show ?thesis by (simp add: double_def)
qed

lemma powi_split: "j \<le> k \<Longrightarrow> (2 :: rat) powi k = of_int (2 ^ nat (k - j)) * 2 powi j"
proof -
  assume "j \<le> k"
  then have "(2 :: rat) powi k = 2 powi (k - j) * 2 powi j"
    by (simp add: power_int_add [symmetric])
  also from \<open>j \<le> k\<close> have "(2 :: rat) powi (k - j) = of_int (2 ^ nat (k - j))"
    by (simp add: power_int_def)
  finally show ?thesis .
qed

lemma double_exact_strict:
  assumes x: "x = of_int m * 2 powi k" and m: "\<bar>m\<bar> < 2 ^ 53" and k: "- 1074 \<le> k"
  shows "double x = x"
proof (cases "x = 0")
  case True
  then show ?thesis by (simp add: double_def)
next
  case False
  define j where "j = max (exponent x) (- 1022) - 52"
  have ulp: "ulp x = 2 powi j" by (simp add: ulp_def j_def)
  have "\<bar>x\<bar> = of_int \<bar>m\<bar> * 2 powi k" by (simp add: x abs_mult)
  also have "\<dots> < of_int (2 ^ 53) * 2 powi k"
  proof (rule mult_strict_right_mono)
    from m show "(of_int \<bar>m\<bar> :: rat) < of_int (2 ^ 53)" by (simp only: of_int_less_iff)
    show "(0 :: rat) < 2 powi k" by simp
  qed
  also have "\<dots> = 2 powi (53 + k)" by (simp add: power_int_add)
  finally have "(2 :: rat) powi exponent x < 2 powi (53 + k)"
    using exponent_bounds(1) [OF False] by simp
  from powi_less_cancel [OF this] k have jk: "j \<le> k" by (simp add: j_def)
  have "of_int m * (2 :: rat) powi k = of_int (m * 2 ^ nat (k - j)) * 2 powi j"
    by (subst powi_split [OF jk]) simp
  then have "x = of_int (m * 2 ^ nat (k - j)) * 2 powi j"
    by (simp only: x)
  then have "x = of_int (m * 2 ^ nat (k - j)) * ulp x"
    by (subst ulp)
  then show ?thesis by (rule double_of_multiple)
qed

lemma double_exact:
  assumes x: "x = of_int m * 2 powi k" and m: "\<bar>m\<bar> \<le> 2 ^ 53" and k: "- 1074 \<le> k"
  shows "double x = x"
proof (cases "\<bar>m\<bar> < 2 ^ 53")
  case True
  with x k show ?thesis by (intro double_exact_strict)
next
  case False
  with m have "\<bar>m\<bar> = 2 ^ 53" by simp
  then have "m = 2 ^ 52 * 2 \<or> m = - (2 ^ 52) * 2" by (auto simp: abs_if split: if_splits)
  then obtain m' where m': "m = m' * 2" "\<bar>m'\<bar> < 2 ^ 53" by auto
  have "x = of_int m' * 2 powi (k + 1)"
    by (simp add: x m'(1) power_int_add)
  with m'(2) k show ?thesis by (intro double_exact_strict [of x m' "k + 1"]) simp_all
qed

lemma double_of_int: "\<bar>n\<bar> \<le> 2 ^ 53 \<Longrightarrow> double (of_int n) = of_int n"
  by (rule double_exact [of _ n 0]) simp_all


lemma ulp_ge: "2 powi (- 1074) \<le> ulp x"
  unfolding ulp_def by (rule power_int_increasing) simp_all

lemma ulp_le:
  assumes "2 powi (- 1074) \<le> \<bar>x\<bar>"
  shows "ulp x \<le> \<bar>x\<bar>"
proof (cases "- 1022 \<le> exponent x")
  case True
  from assms have nz: "x \<noteq> 0" by auto
  from True have "ulp x = 2 powi (exponent x - 52)" by (simp add: ulp_def max_def)
  also have "\<dots> \<le> 2 powi exponent x" by (rule power_int_increasing) simp_all
  also note exponent_bounds(1) [OF nz]
  finally show ?thesis .
next
  case False
  then have "ulp x = 2 powi (- 1074)" by (simp add: ulp_def max_def)
  with assms show ?thesis by simp
qed

lemma scaled_less:
  assumes "x \<noteq> 0"
  shows "\<bar>x / ulp x\<bar> < 2 ^ 53"
proof -
  have "exponent x + 1 \<le> max (exponent x) (- 1022) - 52 + 53" by simp
  then have "(2 :: rat) powi (exponent x + 1) \<le> 2 powi (max (exponent x) (- 1022) - 52 + 53)"
    by (rule power_int_increasing) simp
  also have "\<dots> = 2 powi (max (exponent x) (- 1022) - 52) * 2 powi 53"
    by (rule power_int_add) simp
  also have "\<dots> = ulp x * 2 ^ 53" by (simp add: ulp_def)
  finally have "\<bar>x\<bar> < ulp x * 2 ^ 53"
    using exponent_bounds(2) [OF assms] by simp
  then show ?thesis by (simp add: pos_divide_less_eq mult.commute)
qed

lemma double_as_multiple:
  "\<exists>r. double x = of_int r * ulp x \<and> \<bar>r\<bar> \<le> 2 ^ 53"
proof (cases "x = 0")
  case True
  then have "double x = of_int 0 * ulp x \<and> \<bar>0 :: int\<bar> \<le> 2 ^ 53" by (simp add: double_def)
  then show ?thesis by blast
next
  case False
  define r where "r = round_even (x / ulp x)"
  from round_even_near [of "x / ulp x"] scaled_less [OF False]
  have "\<bar>(of_int r :: rat)\<bar> < 2 ^ 53 + 1" unfolding r_def by linarith
  then have "(of_int \<bar>r\<bar> :: rat) < of_int (2 ^ 53 + 1)" by simp
  then have "\<bar>r\<bar> < 2 ^ 53 + 1" by (simp only: of_int_less_iff)
  with False show ?thesis by (auto simp: double_def r_def)
qed

lemma double_idem [simp]: "double (double x) = double x"
proof -
  from double_as_multiple [of x] obtain r where r: "double x = of_int r * ulp x" "\<bar>r\<bar> \<le> 2 ^ 53"
    by blast
  have "double x = of_int r * 2 powi (max (exponent x) (- 1022) - 52)"
    using r(1) by (simp add: ulp_def)
  from double_exact [OF this r(2)] show ?thesis by simp
qed

lemma is_double_double [simp]: "is_double (double x)"
  by (simp add: is_double_def)

lemma on_grid:
  assumes "is_double a"
  shows "\<exists>n. a = of_int n * 2 powi (- 1074)"
proof -
  from double_as_multiple [of a] assms obtain r where "a = of_int r * ulp a"
    by (auto simp: is_double_def)
  then have "a = of_int r * 2 powi (max (exponent a) (- 1022) - 52)" by (simp add: ulp_def)
  also have "(2 :: rat) powi (max (exponent a) (- 1022) - 52) =
      of_int (2 ^ nat (max (exponent a) (- 1022) - 52 - (- 1074))) * 2 powi (- 1074)"
    by (rule powi_split) simp
  finally have "a = of_int (r * 2 ^ nat (max (exponent a) (- 1022) - 52 - (- 1074))) * 2 powi (- 1074)"
    by simp
  then show ?thesis by blast
qed

lemma double_sign:
  assumes "2 powi (- 1074) \<le> \<bar>x\<bar>"
  shows "(double x \<le> 0) = (x \<le> 0)"
proof -
  from assms have nz: "x \<noteq> 0" by auto
  define z where "z = x / ulp x"
  from ulp_le [OF assms] have "1 \<le> \<bar>z\<bar>"
    by (simp add: z_def abs_divide abs_of_pos pos_le_divide_eq)
  have int: "(of_int k \<le> (0 :: rat)) = (of_int k < (1 :: rat))" for k :: int
    by (simp only: of_int_le_0_iff of_int_less_1_iff) linarith
  from \<open>1 \<le> \<bar>z\<bar>\<close> round_even_near [of z]
  have "(of_int (round_even z) < (1 :: rat)) = (z \<le> 0)"
  proof (cases "z \<le> 0")
    case True
    with \<open>1 \<le> \<bar>z\<bar>\<close> round_even_near [of z] have "of_int (round_even z) < (1 :: rat)"
      by linarith
    with True show ?thesis by simp
  next
    case False
    with \<open>1 \<le> \<bar>z\<bar>\<close> round_even_near [of z] have "(0 :: rat) < of_int (round_even z)"
      by linarith
    then have "0 < round_even z" by (simp only: of_int_0_less_iff)
    then have "\<not> round_even z < 1" by simp
    then have "\<not> of_int (round_even z) < (1 :: rat)" by (simp only: of_int_less_1_iff) simp
    with False show ?thesis by simp
  qed
  with int have "(of_int (round_even z) \<le> (0 :: rat)) = (z \<le> 0)" by simp
  moreover have "(z \<le> 0) = (x \<le> 0)"
    by (auto simp: z_def divide_le_0_iff)
  moreover have "(double x \<le> 0) = (of_int (round_even z) \<le> (0 :: rat))"
    using nz by (simp add: double_def z_def mult_le_0_iff not_less less_imp_le)
  ultimately show ?thesis by simp
qed

lemma grid_sign:
  assumes "x = of_int n * 2 powi (- 1074)"
  shows "(double x \<le> 0) = (x \<le> 0)"
proof (cases "n = 0")
  case True
  with assms show ?thesis by (simp add: double_def)
next
  case False
  then have "1 \<le> \<bar>n\<bar>" by simp
  then have "(1 :: rat) \<le> of_int \<bar>n\<bar>" by (simp only: of_int_1_le_iff)
  then have "1 * 2 powi (- 1074) \<le> (of_int \<bar>n\<bar> :: rat) * 2 powi (- 1074)"
    by (rule mult_right_mono) simp
  then have "2 powi (- 1074) \<le> \<bar>x\<bar>" by (simp add: assms abs_mult)
  then show ?thesis by (rule double_sign)
qed

lemma fsub_le_0:
  assumes "is_double a" and "is_double b"
  shows "(fsub a b \<le> 0) = (a \<le> b)"
proof -
  from on_grid [OF assms(1)] on_grid [OF assms(2)] obtain n m where
    "a = of_int n * 2 powi (- 1074)" "b = of_int m * 2 powi (- 1074)" by blast
  then have "a - b = of_int (n - m) * 2 powi (- 1074)" by (simp add: left_diff_distrib)
  from grid_sign [OF this] show ?thesis by (simp add: fsub_def)
qed

lemma double_numeral [simp]:
  "(numeral k :: int) \<le> 2 ^ 53 \<Longrightarrow> double (numeral k) = numeral k"
  "(numeral k :: int) \<le> 2 ^ 53 \<Longrightarrow> double (- numeral k) = - numeral k"
  "double 0 = 0" "double 1 = 1" "double (- 1) = - 1"
  using double_of_int [of "numeral k"] double_of_int [of "- numeral k"] double_of_int [of 1]
    double_of_int [of "- 1"]
  by (simp_all add: double_def)

lemma tiny_le_half: "(2 :: rat) powi (- 1022) \<le> 1 / 2"
proof -
  have "(2 :: rat) powi (- 1022) \<le> 2 powi (- 1)" by (rule power_int_increasing) simp_all
  then show ?thesis by (simp add: power_int_minus)
qed

lemma relative_error_half:
  "1 / 2 \<le> \<bar>x\<bar> \<Longrightarrow> \<bar>double x - x\<bar> \<le> \<bar>x\<bar> / 2 ^ 53"
  using tiny_le_half by (intro double_relative_error) simp

text \<open>The decimal literals of the source, as doubles.\<close>

lemma literals:
  "double (1 / 10) = 3602879701896397 / 36028797018963968"
  "double (3 / 20) = 5404319552844595 / 36028797018963968"
  "double (3 / 5) = 5404319552844595 / 9007199254740992"
  "double (1 / 50) = 5764607523034235 / 288230376151711744"
  "double (7 / 10) = 3152519739159347 / 4503599627370496"
  "double (6 / 5) = 5404319552844595 / 4503599627370496"
  "double (23 / 20) = 2589569785738035 / 2251799813685248"
  "double (5 / 4) = 5 / 4"
  "double (13 / 10) = 5854679515581645 / 4503599627370496"
  by code_simp+

text \<open>
  Marking up an integer price by a decimal markup of two places: as long as the price in
  hundredths stays below \<open>2\<^sup>5\<^sup>0\<close>, the three roundings on the way do not move the result
  of \<open>Math.round\<close>.
\<close>

lemma markup_round_exact:
  assumes m: "1 \<le> m" and N: "of_int r * m * 100 = of_int N" and bound: "\<bar>N\<bar> \<le> 2 ^ 50"
  shows "Math_round (fmul (fmul (of_int r) (double m)) 100) = of_int N"
proof (cases "r = 0")
  case True
  with N have "(of_int N :: rat) = 0" by simp
  moreover have "\<lfloor>1 / 2 :: rat\<rfloor> = 0" by (simp add: floor_eq_iff)
  ultimately show ?thesis using True by (simp add: fmul_def double_def Math_round_def)
next
  case False
  define a where "a = of_int r * m"
  define p1 where "p1 = of_int r * double m"
  define t1 where "t1 = double p1"
  define t2 where "t2 = double (t1 * 100)"
  from False have "1 \<le> \<bar>r\<bar>" by simp
  then have r1: "(1 :: rat) \<le> \<bar>of_int r\<bar>" by (simp only: of_int_abs [symmetric] of_int_1_le_iff)
  with m have "1 * 1 \<le> \<bar>of_int r\<bar> * \<bar>m\<bar>" by (intro mult_mono) simp_all
  then have a1: "1 \<le> \<bar>a\<bar>" by (simp add: a_def abs_mult)
  from bound have "(of_int \<bar>N\<bar> :: rat) \<le> of_int (2 ^ 50)" by (simp only: of_int_le_iff)
  with N have a50: "\<bar>a\<bar> * 100 \<le> 2 ^ 50" by (simp add: a_def abs_mult [symmetric])
  have "\<bar>double m - m\<bar> \<le> \<bar>m\<bar> / 2 ^ 53"
    using m by (intro relative_error_half) simp
  then have "\<bar>of_int r\<bar> * \<bar>double m - m\<bar> \<le> \<bar>of_int r\<bar> * (\<bar>m\<bar> / 2 ^ 53)"
    by (intro mult_left_mono) simp_all
  moreover have "p1 - a = of_int r * (double m - m)" by (simp add: p1_def a_def right_diff_distrib)
  ultimately have "\<bar>p1 - a\<bar> \<le> \<bar>a\<bar> / 2 ^ 53" by (simp add: a_def abs_mult)
  then have h1: "\<bar>p1 - a\<bar> \<le> \<bar>a\<bar> / 9007199254740992" by simp
  from h1 a1 have "1 / 2 \<le> \<bar>p1\<bar>" by linarith
  then have "\<bar>t1 - p1\<bar> \<le> \<bar>p1\<bar> / 2 ^ 53" unfolding t1_def by (rule relative_error_half)
  then have h2: "\<bar>t1 - p1\<bar> \<le> \<bar>p1\<bar> / 9007199254740992" by simp
  from h1 h2 a1 have "1 / 2 \<le> \<bar>t1 * 100\<bar>" by linarith
  then have "\<bar>t2 - t1 * 100\<bar> \<le> \<bar>t1 * 100\<bar> / 2 ^ 53"
    unfolding t2_def by (rule relative_error_half)
  then have h3: "\<bar>t2 - t1 * 100\<bar> \<le> \<bar>t1 * 100\<bar> / 9007199254740992" by simp
  from a50 have a50': "\<bar>a\<bar> * 100 \<le> 1125899906842624" by simp
  from h1 h2 h3 a50' have near: "\<bar>t2 - a * 100\<bar> < 1 / 2" by linarith
  from N have "a * 100 = of_int N" by (simp add: a_def)
  with near have "of_int N \<le> t2 + 1 / 2" "t2 + 1 / 2 < of_int N + 1" by linarith+
  then have "\<lfloor>t2 + 1 / 2\<rfloor> = N" by (intro floor_unique)
  then show ?thesis by (simp add: Math_round_def fmul_def t2_def t1_def p1_def)
qed

lemma fsub_le_0_int:
  "\<bar>n\<bar> \<le> 2 ^ 53 \<Longrightarrow> \<bar>m\<bar> \<le> 2 ^ 53 \<Longrightarrow> (fsub (of_int n) (of_int m) \<le> 0) = (n \<le> m)"
  using fsub_le_0 [of "of_int n" "of_int m"] by (simp add: is_double_def double_of_int)

section \<open>Sorting and tagging: lemmas\<close>

lemma set_js_insert [simp]: "set (js_insert cmp x ys) = insert x (set ys)"
  by (induction ys) auto

lemma length_js_insert [simp]: "length (js_insert cmp x ys) = Suc (length ys)"
  by (induction ys) auto

lemma js_sort_Cons: "js_sort cmp (x # xs) = js_insert cmp x (js_sort cmp xs)"
  by (simp add: js_sort_def)

lemma js_sort_Nil [simp]: "js_sort cmp [] = []"
  by (simp add: js_sort_def)

lemma set_js_sort [simp]: "set (js_sort cmp xs) = set xs"
  by (induction xs) (simp_all add: js_sort_Cons)

lemma length_js_sort [simp]: "length (js_sort cmp xs) = length xs"
  by (induction xs) (simp_all add: js_sort_Cons)

text \<open>
  With a comparator that orders the elements as a key does, the sort is the stable
  insertion sort by that key.
\<close>

lemma js_insert_key:
  "(\<And>y. y \<in> set ys \<Longrightarrow> (cmp x y \<le> 0) = (f x \<le> f y)) \<Longrightarrow>
   js_insert cmp x ys = insort_key f x ys"
  by (induction ys) auto

lemma js_sort_key:
  "(\<And>x y. x \<in> set xs \<Longrightarrow> y \<in> set xs \<Longrightarrow> (cmp x y \<le> 0) = (f x \<le> f y)) \<Longrightarrow>
   js_sort cmp xs = sort_key f xs"
proof (induction xs)
  case Nil
  show ?case by simp
next
  case (Cons x xs)
  then have "js_sort cmp xs = sort_key f xs" by simp
  moreover have "js_insert cmp x (sort_key f xs) = insort_key f x (sort_key f xs)"
    using Cons.prems by (intro js_insert_key) simp
  ultimately show ?case by (simp add: js_sort_Cons)
qed

lemma sortByPrice_sort_key:
  "\<forall>q \<in> set qs. is_double (price q) \<Longrightarrow> sortByPrice qs = sort_key price qs"
  unfolding sortByPrice_def by (rule js_sort_key) (simp add: fsub_le_0)

lemma length_sortByPrice [simp]: "length (sortByPrice qs) = length qs"
  by (simp add: sortByPrice_def)

lemma set_sortByPrice [simp]: "set (sortByPrice qs) = set qs"
  by (simp add: sortByPrice_def)

lemma sortByPrice_Nil [simp]: "sortByPrice [] = []"
  by (simp add: sortByPrice_def)

lemma length_pushTag [simp]: "length (pushTag i t qs) = length qs"
  by (simp add: pushTag_def)

lemma nth_pushTag:
  "j < length qs \<Longrightarrow>
   pushTag i t qs ! j = (if j = i then (qs ! j)\<lparr>tags := tags (qs ! j) @ [t]\<rparr> else qs ! j)"
  by (simp add: pushTag_def nth_list_update)

lemma map_price_pushTag [simp]: "map price (pushTag i t qs) = map price qs"
  by (rule nth_equalityI) (simp_all add: nth_pushTag)

lemma map_untag_pushTag [simp]: "map untag (pushTag i t qs) = map untag qs"
  by (rule nth_equalityI) (simp_all add: nth_pushTag untag_def)

lemma length_tagQuotes [simp]: "length (tagQuotes d qs) = length qs"
  by (simp add: tagQuotes_def Let_def)

lemma map_price_tagQuotes: "map price (tagQuotes d qs) = map price (sortByPrice qs)"
  by (simp add: tagQuotes_def Let_def)

lemma map_untag_tagQuotes: "map untag (tagQuotes d qs) = map untag (sortByPrice qs)"
  by (simp add: tagQuotes_def Let_def)

text \<open>The tags of each quote of a bucket whose quotes came in without tags.\<close>

lemma tags_tagQuotes:
  assumes fresh: "\<forall>q \<in> set qs. tags q = []" and i: "i < length qs"
  shows "tags (tagQuotes d qs ! i) =
           (if i = 0 then [''Best Value''] else []) @
           (if i = min 1 (length qs - 1) then [''Most Popular''] else []) @
           (if truthy_dealer d \<and> 2 < length qs \<and> i = 2 then [''Dealer Recommended''] else [])"
proof -
  from i have ne: "qs \<noteq> []" by auto
  have clean: "tags (sortByPrice qs ! j) = []" if "j < length qs" for j
  proof -
    from that have "sortByPrice qs ! j \<in> set (sortByPrice qs)"
      by (intro nth_mem) simp
    with fresh show ?thesis by simp
  qed
  from i ne show ?thesis
    by (auto simp: tagQuotes_def Let_def nth_pushTag clean)
qed

section \<open>The merge: lemmas\<close>

lemma map_entry_tabulate:
  "distinct ks \<Longrightarrow> AList.map_entry k g (tabulate ks f) = tabulate ks (f(k := g (f k)))"
  by (induction ks) (auto simp: tabulate_def)

lemma tabulate_cong: "(\<And>p. p \<in> set ks \<Longrightarrow> f p = g p) \<Longrightarrow> tabulate ks f = tabulate ks g"
  by (simp add: tabulate_def)

lemma processQuote_tabulate:
  assumes "distinct ks" "set ks \<subseteq> set available" "map_of providers providerId = Some cfg"
  shows "processQuote available providerId q (tabulate ks f) =
           Inr (tabulate ks (\<lambda>p. f p @ (if product_type q = p then [toAggregated cfg q] else [])))"
proof (cases "product_type q \<in> set available")
  case True
  with assms show ?thesis
    by (auto simp: processQuote_def map_entry_tabulate intro!: tabulate_cong)
next
  case False
  with assms show ?thesis
    by (auto simp: processQuote_def intro!: tabulate_cong)
qed

lemma forEachE_processQuote:
  assumes "distinct ks" "set ks \<subseteq> set available" "map_of providers providerId = Some cfg"
  shows "forEachE (processQuote available providerId) qs (tabulate ks f) =
           Inr (tabulate ks (\<lambda>p. f p @ map (toAggregated cfg) (filter (\<lambda>q. product_type q = p) qs)))"
proof (induction qs arbitrary: f)
  case Nil
  show ?case by simp
next
  case (Cons q qs)
  show ?case
    by (simp add: processQuote_tabulate [OF assms] Cons.IH) (auto intro!: tabulate_cong)
qed

lemma processProvider_tabulate:
  assumes "distinct ks" "set ks \<subseteq> set available" "map_of providers (fst entry) = Some cfg"
  shows "processProvider available entry (tabulate ks f) =
           Inr (tabulate ks (\<lambda>p. f p @ contribution p entry))"
  using assms
  by (cases "snd entry") (simp_all add: processProvider_def contribution_def forEachE_processQuote)

lemma forEachE_processProvider:
  assumes "distinct ks" "set ks \<subseteq> set available"
    and "\<forall>entry \<in> set providerQuotes. map_of providers (fst entry) \<noteq> None"
  shows "forEachE (processProvider available) providerQuotes (tabulate ks f) =
           Inr (tabulate ks (\<lambda>p. f p @ fanoutBucket p providerQuotes))"
  using assms(3)
proof (induction providerQuotes arbitrary: f)
  case Nil
  show ?case by (simp add: fanoutBucket_def)
next
  case (Cons entry rest)
  then obtain cfg where cfg: "map_of providers (fst entry) = Some cfg" by auto
  from Cons.prems have rest: "\<forall>entry \<in> set rest. map_of providers (fst entry) \<noteq> None" by simp
  show ?case
    by (simp add: processProvider_tabulate [OF assms(1,2) cfg] Cons.IH [OF rest] fanoutBucket_def)
qed

lemma keyOrder_aux:
  "distinct ks \<Longrightarrow>
   fold (\<lambda>p acc. AList.update p [] acc) available (tabulate ks (\<lambda>p. [])) =
     tabulate (fold (\<lambda>p ks. if p \<in> set ks then ks else ks @ [p]) available ks) (\<lambda>p. [])
   \<and> distinct (fold (\<lambda>p ks. if p \<in> set ks then ks else ks @ [p]) available ks)
   \<and> set (fold (\<lambda>p ks. if p \<in> set ks then ks else ks @ [p]) available ks) = set ks \<union> set available"
proof (induction available arbitrary: ks)
  case Nil
  then show ?case by simp
next
  case (Cons a available)
  have upd: "AList.update a [] (tabulate ks (\<lambda>p. [])) =
      tabulate (if a \<in> set ks then ks else ks @ [a]) (\<lambda>p. [])"
    by (induction ks) (auto simp: tabulate_def)
  from Cons.prems have d: "distinct (if a \<in> set ks then ks else ks @ [a])" by simp
  show ?case
    using Cons.IH [OF d] by (auto simp: upd)
qed

lemma initBuckets_tabulate: "initBuckets available = tabulate (keyOrder available) (\<lambda>p. [])"
  using keyOrder_aux [of "[]" available] by (simp add: initBuckets_def keyOrder_def tabulate_def)

lemma distinct_keyOrder [simp]: "distinct (keyOrder available)"
  using keyOrder_aux [of "[]" available] by (simp add: keyOrder_def)

lemma set_keyOrder [simp]: "set (keyOrder available) = set available"
  using keyOrder_aux [of "[]" available] by (simp add: keyOrder_def)

lemma aggregate_tabulate:
  assumes "\<forall>entry \<in> set providerQuotes. map_of providers (fst entry) \<noteq> None"
  shows "aggregate available providerQuotes =
           Inr (tabulate (keyOrder available) (\<lambda>p. fanoutBucket p providerQuotes))"
  using forEachE_processProvider [of "keyOrder available" available providerQuotes "\<lambda>p. []"] assms
  by (simp add: aggregate_def initBuckets_tabulate)

section \<open>The handler on a cache miss: lemmas\<close>

lemma distinct_provider_ids: "distinct (map fst providers)"
  by (simp add: providers_def)

lemma set_js_sort_key: "set (js_sort (\<lambda>a b. f a - f b) xs) = set xs"
  by (simp add: js_sort_key)

lemma eligible_registered:
  "providerId \<in> set (getEligibleProviders wanted) \<Longrightarrow> map_of providers providerId \<noteq> None"
proof -
  assume "providerId \<in> set (getEligibleProviders wanted)"
  then have "providerId \<in> fst ` set providers"
    by (auto simp: getEligibleProviders_def set_js_sort_key)
  then show ?thesis by (simp add: map_of_eq_None_iff)
qed

lemma fanout_keys [simp]:
  "map fst (getQuotesFromAllProviders call request) =
     getEligibleProviders (opt_products (options request))"
  by (simp add: getQuotesFromAllProviders_def comp_def)

lemma fanout_registered:
  "\<forall>entry \<in> set (getQuotesFromAllProviders call request). map_of providers (fst entry) \<noteq> None"
proof
  fix entry assume "entry \<in> set (getQuotesFromAllProviders call request)"
  then have "fst entry \<in> set (map fst (getQuotesFromAllProviders call request))"
    by (simp del: fanout_keys)
  then show "map_of providers (fst entry) \<noteq> None"
    by (simp only: fanout_keys) (rule eligible_registered)
qed

lemma providerRequestOf_products [simp]:
  "opt_products (options (providerRequestOf v vehicleDetails m z st dealer_id pr available)) =
     available"
  by (simp add: providerRequestOf_def)

lemma vin17_found:
  "length v = 17 \<Longrightarrow>
   getVehicleDetails v =
     Some \<lparr>vd_vin = v, vd_year = decodeModelYear (charAt v 9), vd_make = decodeMake (charAt v 1),
           vd_model = decodeModel (substring v 3 6), vd_trim = ''XLT'', body_style = ''Sedan'',
           engine = ''2.0L I4'', transmission = ''Automatic''\<rparr>"
  by (auto simp: getVehicleDetails_def)

lemma validated_fields:
  assumes "validateQuoteRequest raw = Inr b"
  shows "\<exists>v z wanted. body_vin b = Some v \<and> length v = 17 \<and> body_zip b = Some z \<and> length z = 5
           \<and> list_all is_digit z \<and> body_products b = Some wanted
           \<and> body_dealer_id b = raw_dealer_id raw \<and> raw_vin raw = Some v \<and> raw_zip raw = Some z"
  using assms
  by (auto simp: validateQuoteRequest_def valid_vin_def valid_zip_def
      split: if_splits option.splits)

lemma getQuotes_miss:
  assumes ok: "validateQuoteRequest raw = Inr b" and miss: "cacheMiss e cs b"
    and z: "body_zip b = Some z" and w: "body_products b = Some wanted"
  shows "getQuotes e cs b =
     (if availableFor z wanted = []
      then \<lparr>response = Json200 (ineligibleEnvelope (restrictedProducts (getStateFromZip z) wanted)
                                   (getStateFromZip z)),
            called = [], cache = cs\<rparr>
      else
        \<lparr>response = Json200 (eligibleEnvelope
                      (addTags (body_dealer_id b)
                         (tabulate (keyOrder (availableFor z wanted))
                            (\<lambda>p. fanoutBucket p (fanoutOf e b))))
                      (restrictedProducts (getStateFromZip z) wanted) (getStateFromZip z)),
         called = getEligibleProviders (availableFor z wanted),
         cache = snd (CacheService_set (set_fails e) (now e) cs (fingerprint (numToString e) b)
                       (eligibleEnvelope
                          (addTags (body_dealer_id b)
                             (tabulate (keyOrder (availableFor z wanted))
                                (\<lambda>p. fanoutBucket p (fanoutOf e b))))
                          (restrictedProducts (getStateFromZip z) wanted) (getStateFromZip z))
                       600)\<rparr>)"
proof -
  from validated_fields [OF ok] z w obtain v where
    v: "body_vin b = Some v" "length v = 17" and lz: "length z = 5" by auto
  from v lz have ne: "v \<noteq> []" "z \<noteq> []" by auto
  note vd = vin17_found [OF v(2)]
  have key: "fingerprint (numToString e) b =
      cacheKeyOf (numToString e) v z (body_mileage b) (body_price b) wanted (body_dealer_id b)"
    by (simp add: fingerprint_def v z w)
  have req: "fanoutOf e b = getQuotesFromAllProviders (callProvider e)
      (providerRequestOf v (the (getVehicleDetails v)) (body_mileage b) z (getStateFromZip z)
          (body_dealer_id b) (body_price b) (availableFor z wanted))"
    by (simp add: fanoutOf_def requestOf_def v z w vd)
  from miss have get: "CacheService_get (get_fails e) cs
      (cacheKeyOf (numToString e) v z (body_mileage b) (body_price b) wanted (body_dealer_id b)) = None"
    by (simp add: cacheMiss_def key)
  have avail: "availableProducts wanted (restrictedProducts (getStateFromZip z) wanted) =
      availableFor z wanted"
    by (simp add: availableFor_def)
  show ?thesis
    unfolding getQuotes_def v z w key req
    using ne get
    by (simp add: computeQuotes_def Let_def vd avail aggregate_tabulate [OF fanout_registered])
qed

lemma tags_toAggregated [simp]: "tags (toAggregated cfg q) = []"
  by (simp add: toAggregated_def Let_def)

lemma fanoutBucket_fresh: "\<forall>q \<in> set (fanoutBucket p providerQuotes). tags q = []"
  by (auto simp: fanoutBucket_def contribution_def split: option.splits)

lemma buckets_ineligible [simp]: "buckets (ineligibleEnvelope r st) = []"
  by (simp add: ineligibleEnvelope_def)

lemma buckets_eligible [simp]: "buckets (eligibleEnvelope table r st) = table"
  by (simp add: eligibleEnvelope_def)

lemma in_addTags_tabulate:
  "(p, qs) \<in> set (addTags d (tabulate ks f)) \<longleftrightarrow> p \<in> set ks \<and> qs = tagQuotes d (f p)"
  by (auto simp: addTags_def tabulate_def)

lemma computed_bucket:
  assumes ok: "validateQuoteRequest raw = Inr b" and miss: "cacheMiss e cs b"
    and resp: "response (getQuotes e cs b) = Json200 env"
    and bucket: "(p, qs) \<in> set (buckets env)"
  shows "\<exists>z wanted. body_zip b = Some z \<and> body_products b = Some wanted
           \<and> p \<in> set (availableFor z wanted)
           \<and> qs = tagQuotes (body_dealer_id b) (fanoutBucket p (fanoutOf e b))"
proof -
  from validated_fields [OF ok] obtain z wanted where
    z: "body_zip b = Some z" and w: "body_products b = Some wanted" by auto
  note out = getQuotes_miss [OF ok miss z w]
  show ?thesis
  proof (cases "availableFor z wanted = []")
    case True
    with out resp have "buckets env = []" by auto
    with bucket show ?thesis by simp
  next
    case False
    with out resp have "buckets env = addTags (body_dealer_id b)
        (tabulate (keyOrder (availableFor z wanted)) (\<lambda>p. fanoutBucket p (fanoutOf e b)))"
      by auto
    with bucket z w show ?thesis by (simp add: in_addTags_tabulate)
  qed
qed

section \<open>The example requests: lemmas\<close>

lemma demo_valid: "validateQuoteRequest demoRaw = Inr demoBody"
  by (simp add: validateQuoteRequest_def demoRaw_def demoBody_def valid_vin_def valid_zip_def
      valid_mileage_def valid_price_def valid_products_def parse_product_def is_digit_def
      MAX_SAFE_INTEGER_def)

lemma fresh_miss: "cacheMiss e freshCache b"
  by (simp add: cacheMiss_def CacheService_get_def freshCache_def memory_get_def)

lemma demo_available: "availableFor z [Tire, Dent] = [Tire, Dent]"
  by (simp add: availableFor_def availableProducts_def restrictedProducts_def isRestricted_def
      stateRestrictions_def)

lemma eligible_tire_dent: "getEligibleProviders [Tire, Dent] = [''providerB'', ''providerD'']"
  by (simp add: getEligibleProviders_def providers_def js_sort_def fsub_def)

lemma product_type_tire [simp]:
  "product_type (tirePremium pid cfg) = Tire" "product_type (tireBasic pid cfg) = Tire"
  "product_type (dentRepair pid cfg) = Dent"
  by (simp_all add: tirePremium_def tireBasic_def dentRepair_def)

lemma providerB_quotes:
  "getQuotesFromProvider y ''providerB'' (providerRequestOf v vd m z st d pr [Tire, Dent]) =
     Inr \<lparr>quotes = [tirePremium ''providerB'' (the (map_of providers ''providerB'')),
                     tireBasic ''providerB'' (the (map_of providers ''providerB'')),
                     dentRepair ''providerB'' (the (map_of providers ''providerB''))],
          resp_eligibility = ''eligible'',
          resp_disclaimer = ''Coverage is subject to terms and conditions of the service contract.''\<rparr>"
  by (simp add: getQuotesFromProvider_def simulateProviderResponse_def providers_def
      generateTireQuotes_def generateDentQuotes_def)

lemma providerD_quotes:
  "getQuotesFromProvider y ''providerD'' (providerRequestOf v vd m z st d pr [Tire, Dent]) =
     Inr \<lparr>quotes = [tirePremium ''providerD'' (the (map_of providers ''providerD'')),
                     tireBasic ''providerD'' (the (map_of providers ''providerD'')),
                     dentRepair ''providerD'' (the (map_of providers ''providerD''))],
          resp_eligibility = ''eligible'',
          resp_disclaimer = ''Coverage is subject to terms and conditions of the service contract.''\<rparr>"
  by (simp add: getQuotesFromProvider_def simulateProviderResponse_def providers_def
      generateTireQuotes_def generateDentQuotes_def)

lemma registered_B_D: "map_of providers ''providerB'' \<noteq> None" "map_of providers ''providerD'' \<noteq> None"
  by (simp_all add: providers_def)

section \<open>Every validated request is answered: lemmas\<close>

lemma getQuotes_hit:
  assumes ok: "validateQuoteRequest raw = Inr b"
    and hit: "CacheService_get (get_fails e) cs (fingerprint (numToString e) b) = Some cached"
  shows "getQuotes e cs b = \<lparr>response = Json200 cached, called = [], cache = cs\<rparr>"
proof -
  from validated_fields [OF ok] obtain v z wanted where
    f: "body_vin b = Some v" "length v = 17" "body_zip b = Some z" "length z = 5"
       "body_products b = Some wanted" by auto
  from f have ne: "v \<noteq> []" "z \<noteq> []" by auto
  have key: "fingerprint (numToString e) b =
      cacheKeyOf (numToString e) v z (body_mileage b) (body_price b) wanted (body_dealer_id b)"
    by (simp add: fingerprint_def f)
  from hit ne show ?thesis
    by (simp add: getQuotes_def f key)
qed

lemma validated_200:
  assumes ok: "validateQuoteRequest raw = Inr b"
  shows "\<exists>env. response (getQuotes e cs b) = Json200 env"
proof (cases "cacheMiss e cs b")
  case True
  from validated_fields [OF ok] obtain z wanted where
    "body_zip b = Some z" "body_products b = Some wanted" by auto
  from getQuotes_miss [OF ok True this] show ?thesis by simp
next
  case False
  then obtain cached where
    "CacheService_get (get_fails e) cs (fingerprint (numToString e) b) = Some cached"
    by (auto simp: cacheMiss_def)
  from getQuotes_hit [OF ok this] show ?thesis by simp
qed

lemma postQuotes_invalid:
  "validateQuoteRequest raw = Inl err \<Longrightarrow>
   postQuotes e cs raw = \<lparr>response = NextApiError (badRequest ''Invalid request data''),
                           called = [], cache = cs\<rparr>"
  by (auto simp: postQuotes_def validateQuoteRequest_def split: if_splits)

lemma postQuotes_valid:
  "validateQuoteRequest raw = Inr b \<Longrightarrow> postQuotes e cs raw = getQuotes e cs b"
  by (simp add: postQuotes_def)

section \<open>Buckets of a computed response: lemmas\<close>

lemma registry_markup:
  "map_of providers providerId = Some cfg \<Longrightarrow> markup cfg \<noteq> 0"
  by (auto simp: providers_def literals split: if_splits)

text \<open>The markups of the registry are the doubles of decimals of two places, from 1 on.\<close>

lemma registry_decimal:
  assumes "map_of providers providerId = Some cfg"
  shows "\<exists>M \<in> {115, 120, 125, 130}. markup cfg = double (of_int M / 100)"
proof -
  from assms have "markup cfg = double (of_int 120 / 100) \<or> markup cfg = double (of_int 115 / 100)
      \<or> markup cfg = double (of_int 125 / 100) \<or> markup cfg = double (of_int 130 / 100)"
    by (auto simp: providers_def split: if_splits)
  then show ?thesis by blast
qed

text \<open>
  The price of an integer retail price of magnitude at most \<open>10\<^sup>1\<^sup>2\<close> under a markup of the
  registry: the double nearest to the exact product.
\<close>

lemma marked_up_integer:
  assumes int: "x \<in> \<int>" and small: "\<bar>x\<bar> \<le> 10 ^ 12" and M: "100 \<le> M" "M \<le> 130"
    and pr: "y = fdiv (Math_round (fmul (fmul x (double (of_int M / 100))) 100)) 100"
  shows "y = double (x * (of_int M / 100))"
proof -
  from int obtain r where x: "x = of_int r" by (rule Ints_cases)
  with small have "(of_int \<bar>r\<bar> :: rat) \<le> of_int (10 ^ 12)" by simp
  then have r: "\<bar>r\<bar> \<le> 10 ^ 12" by (simp only: of_int_le_iff)
  from M have "\<bar>M\<bar> \<le> 130" by simp
  with r have "\<bar>r\<bar> * \<bar>M\<bar> \<le> 10 ^ 12 * 130" by (intro mult_mono) simp_all
  then have bound: "\<bar>r * M\<bar> \<le> 2 ^ 50" by (simp add: abs_mult)
  from M(1) have "(of_int 100 :: rat) \<le> of_int M" by (simp only: of_int_le_iff)
  then have m: "(1 :: rat) \<le> of_int M / 100" by simp
  have "of_int r * (of_int M / 100) * 100 = (of_int (r * M) :: rat)" by simp
  from markup_round_exact [OF m this bound]
  have "y = fdiv (of_int (r * M)) 100" by (simp add: pr x)
  then show ?thesis by (simp add: fdiv_def x)
qed

lemma in_tagged_bucket:
  assumes "q \<in> set (tagQuotes d pre)"
  shows "\<exists>q0 \<in> set pre. untag q = untag q0"
proof -
  from assms have "untag q \<in> set (map untag (tagQuotes d pre))" by simp
  then have "untag q \<in> set (map untag (sortByPrice pre))"
    by (simp only: map_untag_tagQuotes)
  then show ?thesis by auto
qed

lemma untag_eq:
  "untag q = untag q0 \<Longrightarrow> price q = price q0 \<and> aq_id q = aq_id q0"
  by (cases q, cases q0) (simp add: untag_def)

lemma in_fanoutBucket:
  assumes "q0 \<in> set (fanoutBucket p (getQuotesFromAllProviders call request))"
  shows "\<exists>providerId cfg r rq. map_of providers providerId = Some cfg
      \<and> call providerId request = Inr r \<and> rq \<in> set (quotes r) \<and> product_type rq = p
      \<and> q0 = toAggregated cfg rq"
proof -
  from assms obtain entry where
    entry: "entry \<in> set (getQuotesFromAllProviders call request)"
    and q0: "q0 \<in> set (contribution p entry)"
    by (auto simp: fanoutBucket_def)
  from entry obtain providerId where
    e: "entry = (providerId, case call providerId request of Inl e \<Rightarrow> None | Inr r \<Rightarrow> Some r)"
    by (auto simp: getQuotesFromAllProviders_def)
  from q0 e show ?thesis
    by (auto simp: contribution_def split: option.splits sum.splits) metis
qed

lemma price_toAggregated:
  "markup cfg \<noteq> 0 \<Longrightarrow>
   price (toAggregated cfg rq) =
     fdiv (Math_round (fmul (fmul (retail_price rq) (markup cfg)) 100)) 100"
  by (simp add: toAggregated_def)

lemma is_double_price [simp]: "is_double (price (toAggregated cfg rq))"
  by (simp add: toAggregated_def Let_def fdiv_def)

lemma fanoutBucket_doubles: "\<forall>q \<in> set (fanoutBucket p providerQuotes). is_double (price q)"
  by (auto simp: fanoutBucket_def contribution_def split: option.splits)

lemma aq_id_toAggregated [simp]: "aq_id (toAggregated cfg rq) = product_id rq"
  by (simp add: toAggregated_def Let_def)

lemma fanoutOf_request:
  "requestOf b = Some request \<Longrightarrow>
   fanoutOf e b = getQuotesFromAllProviders (callProvider e) request"
  by (simp add: fanoutOf_def)

lemma validated_request:
  assumes "validateQuoteRequest raw = Inr b"
  shows "\<exists>request. requestOf b = Some request"
proof -
  from validated_fields [OF assms] obtain v z wanted where
    "body_vin b = Some v" "length v = 17" "body_zip b = Some z" "body_products b = Some wanted"
    by auto
  then show ?thesis by (simp add: requestOf_def vin17_found)
qed

lemma tire_dent_request:
  assumes "validateQuoteRequest raw = Inr b" and "body_products b = Some [Tire, Dent]"
  shows "\<exists>v vd m z st d pr. requestOf b = Some (providerRequestOf v vd m z st d pr [Tire, Dent])"
proof -
  from validated_fields [OF assms(1)] assms(2) obtain v z where
    "body_vin b = Some v" "length v = 17" "body_zip b = Some z"
    by auto
  with assms(2) show ?thesis
    by (simp add: requestOf_def vin17_found demo_available) blast
qed

lemma tire_bucket_length:
  assumes "validateQuoteRequest raw = Inr b" and "body_products b = Some [Tire, Dent]"
  shows "length (fanoutBucket Tire (fanoutOf demoEnv b)) = 4"
proof -
  from tire_dent_request [OF assms] obtain v vd m z st d pr where
    "requestOf b = Some (providerRequestOf v vd m z st d pr [Tire, Dent])" by blast
  with registered_B_D show ?thesis
    by (auto simp: fanoutOf_def getQuotesFromAllProviders_def eligible_tire_dent
        demoEnv_def simulated_def providerB_quotes providerD_quotes fanoutBucket_def
        contribution_def)
qed

lemma demo_products: "body_products demoBody = Some [Tire, Dent]"
  by (simp add: demoBody_def)

lemma direct_valid: "validateQuoteRequest directRaw = Inr directBody"
  by (simp add: validateQuoteRequest_def directRaw_def directBody_def demoRaw_def demoBody_def
      valid_vin_def valid_zip_def valid_mileage_def valid_price_def valid_products_def
      parse_product_def is_digit_def MAX_SAFE_INTEGER_def)

lemma direct_products: "body_products directBody = Some [Tire, Dent]"
  by (simp add: directBody_def demoBody_def)

lemma untag_fresh: "\<forall>q \<in> set pre. tags q = [] \<Longrightarrow> map untag pre = pre"
  by (induction pre) (simp_all add: untag_def)

lemma contribution_failed [simp]: "contribution p (providerId, None) = []"
  by (simp add: contribution_def)

lemma contribution_absorbed:
  "contribution p (providerId, case absorbFailures call providerId request of
                                  Inl e \<Rightarrow> None | Inr r \<Rightarrow> Some r) =
   contribution p (providerId, case call providerId request of Inl e \<Rightarrow> None | Inr r \<Rightarrow> Some r)"
  by (simp add: contribution_def absorbFailures_def split: sum.splits option.splits)

lemma fanoutBucket_absorbed:
  "fanoutBucket p (getQuotesFromAllProviders (absorbFailures call) request) =
   fanoutBucket p (getQuotesFromAllProviders call request)"
  by (simp add: fanoutBucket_def getQuotesFromAllProviders_def comp_def contribution_absorbed)

lemma fanoutOf_absorbed:
  "fanoutBucket p (fanoutOf (e\<lparr>callProvider := absorbFailures (callProvider e)\<rparr>) b) =
   fanoutBucket p (fanoutOf e b)"
  by (simp add: fanoutOf_def fanoutBucket_absorbed split: option.splits)

lemma response_absorbed:
  assumes ok: "validateQuoteRequest raw = Inr b"
  shows "response (getQuotes (e\<lparr>callProvider := absorbFailures (callProvider e)\<rparr>) cs b) =
         response (getQuotes e cs b)"
proof (cases "cacheMiss e cs b")
  case True
  then have miss': "cacheMiss (e\<lparr>callProvider := absorbFailures (callProvider e)\<rparr>) cs b"
    by (simp add: cacheMiss_def)
  from validated_fields [OF ok] obtain z wanted where
    zw: "body_zip b = Some z" "body_products b = Some wanted" by auto
  show ?thesis
    by (simp add: getQuotes_miss [OF ok True zw] getQuotes_miss [OF ok miss' zw] fanoutOf_absorbed)
next
  case False
  then obtain cached where
    hit: "CacheService_get (get_fails e) cs (fingerprint (numToString e) b) = Some cached"
    by (auto simp: cacheMiss_def)
  then have hit': "CacheService_get (get_fails (e\<lparr>callProvider := absorbFailures (callProvider e)\<rparr>)) cs
      (fingerprint (numToString (e\<lparr>callProvider := absorbFailures (callProvider e)\<rparr>)) b) = Some cached"
    by simp
  show ?thesis
    by (simp add: getQuotes_hit [OF ok hit] getQuotes_hit [OF ok hit'])
qed

text \<open>
  The bucket of a product as the merge fills it, written out over the calls: the
  aggregated quotes of that product from each call that returned, in the order of the
  calls; a call that threw gives nothing.
\<close>

lemma fanoutBucket_calls:
  "fanoutBucket p (getQuotesFromAllProviders call request) =
     concat (map (\<lambda>providerId.
                    case call providerId request of
                      Inl err \<Rightarrow> []
                    | Inr r \<Rightarrow>
                        (case map_of providers providerId of
                           None \<Rightarrow> []
                         | Some cfg \<Rightarrow>
                             map (toAggregated cfg) (filter (\<lambda>q. product_type q = p) (quotes r))))
               (getEligibleProviders (opt_products (options request))))"
proof -
  have "contribution p (providerId, case call providerId request of Inl e \<Rightarrow> None | Inr r \<Rightarrow> Some r) =
      (case call providerId request of
         Inl err \<Rightarrow> []
       | Inr r \<Rightarrow>
           (case map_of providers providerId of
              None \<Rightarrow> []
            | Some cfg \<Rightarrow> map (toAggregated cfg) (filter (\<lambda>q. product_type q = p) (quotes r))))"
    for providerId
    by (simp add: contribution_def split: sum.splits)
  then show ?thesis
    by (simp add: fanoutBucket_def getQuotesFromAllProviders_def comp_def)
qed

lemma computed_bucket_merged:
  assumes ok: "validateQuoteRequest raw = Inr b" and miss: "cacheMiss e cs b"
    and resp: "response (getQuotes e cs b) = Json200 env"
    and bucket: "(p, qs) \<in> set (buckets env)"
    and req: "requestOf b = Some request"
  shows "called (getQuotes e cs b) = getEligibleProviders (opt_products (options request))"
    and "map untag qs =
           sort_key price (fanoutBucket p (getQuotesFromAllProviders (callProvider e) request))"
proof -
  define pre where "pre = fanoutBucket p (getQuotesFromAllProviders (callProvider e) request)"
  from computed_bucket [OF ok miss resp bucket] obtain z wanted where
    zw: "body_zip b = Some z" "body_products b = Some wanted"
    and p: "p \<in> set (availableFor z wanted)"
    and qs: "qs = tagQuotes (body_dealer_id b) pre"
    by (auto simp: pre_def fanoutOf_request [OF req])
  from p have avail: "availableFor z wanted \<noteq> []" by auto
  from req zw have "opt_products (options request) = availableFor z wanted"
    by (auto simp: requestOf_def split: option.splits)
  with getQuotes_miss [OF ok miss zw] avail
  show "called (getQuotes e cs b) = getEligibleProviders (opt_products (options request))"
    by simp
  have fresh: "\<forall>q \<in> set (sort_key price pre). tags q = []"
    using fanoutBucket_fresh [of p "getQuotesFromAllProviders (callProvider e) request"]
    by (simp add: pre_def)
  have doubles: "\<forall>q \<in> set pre. is_double (price q)"
    by (simp add: pre_def fanoutBucket_doubles)
  show "map untag qs = sort_key price pre"
    by (simp add: qs map_untag_tagQuotes sortByPrice_sort_key [OF doubles] untag_fresh [OF fresh])
qed

section \<open>Cache keys and reachable states: lemmas\<close>

lemma split_at:
  assumes "c \<notin> set a" and "c \<notin> set a'" and "a @ c # r = a' @ c # r'"
  shows "a = a' \<and> r = r'"
  using assms
proof (induction a arbitrary: a')
  case Nil
  then show ?case by (cases a') auto
next
  case (Cons x a)
  then show ?case by (cases a') auto
qed

lemma token_clean: "CHR '','' \<notin> set (product_token p)" "CHR '':'' \<notin> set (product_token p)"
  "product_token p \<noteq> []"
  by (cases p; simp)+

lemma token_inj: "product_token p = product_token p' \<Longrightarrow> p = p'"
  by (cases p; cases p'; simp)

lemma join_tokens_Cons:
  "join '','' (product_token p # map product_token ps) =
     product_token p @ (if ps = [] then [] else CHR '','' # join '','' (map product_token ps))"
  by (cases ps) simp_all

lemma join_tokens_colon: "CHR '':'' \<notin> set (join '','' (map product_token ps))"
  by (induction ps) (simp_all add: join_tokens_Cons token_clean)

lemma join_tokens_empty: "join '','' (map product_token ps) = [] \<longleftrightarrow> ps = []"
  by (cases ps) (simp_all add: join_tokens_Cons token_clean)

lemma split_tail:
  assumes "c \<notin> set a" and "c \<notin> set a'"
    and "s = [] \<or> hd s = c" and "s' = [] \<or> hd s' = c" and "a @ s = a' @ s'"
  shows "a = a' \<and> s = s'"
  using assms
proof (induction a arbitrary: a')
  case Nil
  then show ?case by (cases a') auto
next
  case (Cons x a)
  then show ?case by (cases a') auto
qed

lemma tokensTail_shape: "tokensTail ps = [] \<or> hd (tokensTail ps) = CHR '',''"
  by (simp add: tokensTail_def)

lemma join_tokens_tail:
  "join '','' (product_token p # map product_token ps) = product_token p @ tokensTail ps"
  by (simp add: join_tokens_Cons tokensTail_def)

lemma join_tokens_inj:
  "join '','' (map product_token ps) = join '','' (map product_token ps') \<Longrightarrow> ps = ps'"
proof (induction ps arbitrary: ps')
  case Nil
  then show ?case using join_tokens_empty [of ps'] by simp
next
  case (Cons p ps)
  show ?case
  proof (cases ps')
    case Nil
    with Cons.prems join_tokens_empty [of "p # ps"] show ?thesis by simp
  next
    case (Cons p' qs)
    have "join '','' (product_token p # map product_token ps) =
        join '','' (product_token p' # map product_token qs)"
      using Cons.prems Cons by simp
    then have eq: "product_token p @ tokensTail ps = product_token p' @ tokensTail qs"
      by (simp only: join_tokens_tail)
    from split_tail [OF token_clean(1) token_clean(1) tokensTail_shape tokensTail_shape eq]
    have tok: "product_token p = product_token p'" and tl: "tokensTail ps = tokensTail qs"
      by blast+
    from tok have "p = p'" by (rule token_inj)
    moreover have "join '','' (map product_token ps) = join '','' (map product_token qs)"
    proof (cases "ps = []")
      case True
      with tl have "qs = []" by (simp add: tokensTail_def split: if_splits)
      with True show ?thesis by simp
    next
      case False
      with tl have "qs \<noteq> []" by (auto simp: tokensTail_def split: if_splits)
      with False tl show ?thesis by (simp add: tokensTail_def)
    qed
    then have "ps = qs" by (rule Cons.IH)
    ultimately show ?thesis using Cons by simp
  qed
qed

lemma fingerprint_fields:
  assumes ok: "validateQuoteRequest raw = Inr b" and ok': "validateQuoteRequest raw' = Inr b'"
    and cf: "colonFree str" and cf': "colonFree str'"
    and same: "fingerprint str b = fingerprint str' b'"
  shows "body_zip b = body_zip b' \<and> body_products b = body_products b'"
proof -
  from validated_fields [OF ok] obtain v z w where
    f: "body_vin b = Some v" "length v = 17" "body_zip b = Some z" "length z = 5"
       "body_products b = Some w" by auto
  from validated_fields [OF ok'] obtain v' z' w' where
    f': "body_vin b' = Some v'" "length v' = 17" "body_zip b' = Some z'" "length z' = 5"
       "body_products b' = Some w'" by auto
  from ok obtain m pr where n: "body_mileage b = Some m" "body_price b = Some pr"
    by (auto simp: validateQuoteRequest_def valid_mileage_def valid_price_def
        split: if_splits option.splits)
  from ok' obtain m' pr' where n': "body_mileage b' = Some m'" "body_price b' = Some pr'"
    by (auto simp: validateQuoteRequest_def valid_mileage_def valid_price_def
        split: if_splits option.splits)
  define M where "M = str (of_int m)"
  define P where "P = str pr"
  define M' where "M' = str' (of_int m')"
  define P' where "P' = str' pr'"
  define J where "J = join '','' (map product_token w)"
  define J' where "J' = join '','' (map product_token w')"
  define D where "D = dealerOrNone (body_dealer_id b)"
  define D' where "D' = dealerOrNone (body_dealer_id b')"
  have clean: "CHR '':'' \<notin> set M" "CHR '':'' \<notin> set P" "CHR '':'' \<notin> set M'" "CHR '':'' \<notin> set P'"
    "CHR '':'' \<notin> set J" "CHR '':'' \<notin> set J'"
    using cf cf' by (simp_all add: colonFree_def M_def P_def M'_def P'_def J_def J'_def
        join_tokens_colon)
  from same have "v @ (CHR '':'' # z @ CHR '':'' # M @ CHR '':'' # P @ CHR '':'' # J @ CHR '':'' # D) =
      v' @ (CHR '':'' # z' @ CHR '':'' # M' @ CHR '':'' # P' @ CHR '':'' # J' @ CHR '':'' # D')"
    by (simp add: fingerprint_def cacheKeyOf_def interpolate_def f f' n n'
        M_def P_def M'_def P'_def J_def J'_def D_def D'_def)
  with f(2) f'(2) have "z @ (CHR '':'' # M @ CHR '':'' # P @ CHR '':'' # J @ CHR '':'' # D) =
      z' @ (CHR '':'' # M' @ CHR '':'' # P' @ CHR '':'' # J' @ CHR '':'' # D')"
    by simp
  with f(4) f'(4) have z: "z = z'" and
    r: "M @ CHR '':'' # (P @ CHR '':'' # J @ CHR '':'' # D) =
        M' @ CHR '':'' # (P' @ CHR '':'' # J' @ CHR '':'' # D')"
    by simp_all
  from split_at [OF clean(1) clean(3) r] have
    r2: "P @ CHR '':'' # (J @ CHR '':'' # D) = P' @ CHR '':'' # (J' @ CHR '':'' # D')" by simp
  from split_at [OF clean(2) clean(4) r2] have
    r3: "J @ CHR '':'' # D = J' @ CHR '':'' # D'" by simp
  from split_at [OF clean(5) clean(6) r3] have "J = J'" by simp
  then have "w = w'" unfolding J_def J'_def by (rule join_tokens_inj)
  with z f f' show ?thesis by simp
qed

lemma storedKeys_get:
  "CacheService_get fails cs k = Some v \<Longrightarrow> k \<in> storedKeys cs"
  by (auto simp: CacheService_get_def storedKeys_def memory_get_def
      split: option.splits if_splits)

lemma storedKeys_set:
  "storedKeys (snd (CacheService_set fails t cs k v ttl)) \<subseteq> insert k (storedKeys cs)"
  by (auto simp: CacheService_set_def storedKeys_def memory_fallback_def memory_set_def
      split: option.splits if_splits)

lemma storedKeys_elapse: "storedKeys (elapse t cs) \<subseteq> storedKeys cs"
  by (auto simp: elapse_def storedKeys_def redis_expire_def fire_timers_def
      split: option.splits if_splits)

lemma storedKeys_request:
  assumes cf: "colonFree (numToString e)" and inv: "\<forall>k \<in> storedKeys cs. eligibleKey k"
  shows "\<forall>k \<in> storedKeys (cache (postQuotes e cs raw)). eligibleKey k"
proof (cases "validateQuoteRequest raw")
  case (Inl err)
  with inv show ?thesis by (simp add: postQuotes_invalid)
next
  case (Inr b)
  from validated_fields [OF Inr] obtain z wanted where
    zw: "body_zip b = Some z" "body_products b = Some wanted" by auto
  show ?thesis
  proof (cases "cacheMiss e cs b")
    case False
    then obtain cached where
      "CacheService_get (get_fails e) cs (fingerprint (numToString e) b) = Some cached"
      by (auto simp: cacheMiss_def)
    from getQuotes_hit [OF Inr this] inv show ?thesis
      by (simp add: postQuotes_valid [OF Inr])
  next
    case True
    note out = getQuotes_miss [OF Inr True zw]
    show ?thesis
    proof (cases "availableFor z wanted = []")
      case True
      with out inv show ?thesis by (simp add: postQuotes_valid [OF Inr])
    next
      case False
      with Inr cf zw have key: "eligibleKey (fingerprint (numToString e) b)"
        unfolding eligibleKey_def by blast
      from False out obtain resp where
        "cache (postQuotes e cs raw) =
           snd (CacheService_set (set_fails e) (now e) cs (fingerprint (numToString e) b) resp 600)"
        by (simp add: postQuotes_valid [OF Inr])
      with storedKeys_set [of "set_fails e" "now e" cs "fingerprint (numToString e) b" resp 600]
      have "storedKeys (cache (postQuotes e cs raw)) \<subseteq>
          insert (fingerprint (numToString e) b) (storedKeys cs)"
        by simp
      with key inv show ?thesis by blast
    qed
  qed
qed

lemma reachable_keys: "reachable cs \<Longrightarrow> \<forall>k \<in> storedKeys cs. eligibleKey k"
proof (induction rule: reachable.induct)
  case constructed
  show ?case by (simp add: storedKeys_def)
next
  case (client_created cs)
  then show ?case by (auto simp: storedKeys_def)
next
  case (connect_failed cs)
  then show ?case by (auto simp: storedKeys_def)
next
  case (connection_event cs up)
  then show ?case by (auto simp: storedKeys_def)
next
  case (time_passes cs t)
  with storedKeys_elapse show ?case by blast
next
  case (request cs e raw)
  then show ?case by (intro storedKeys_request)
qed

lemma reachable_miss:
  assumes "reachable cs" and ok: "validateQuoteRequest raw = Inr b"
    and cf: "colonFree (numToString e)"
    and zw: "body_zip b = Some z" "body_products b = Some wanted"
    and none: "availableFor z wanted = []"
  shows "cacheMiss e cs b"
proof (rule ccontr)
  assume "\<not> cacheMiss e cs b"
  then obtain cached where
    "CacheService_get (get_fails e) cs (fingerprint (numToString e) b) = Some cached"
    by (auto simp: cacheMiss_def)
  then have "fingerprint (numToString e) b \<in> storedKeys cs" by (rule storedKeys_get)
  with reachable_keys [OF assms(1)] have "eligibleKey (fingerprint (numToString e) b)" by blast
  then obtain raw' b' str' z' wanted' where
    o: "validateQuoteRequest raw' = Inr b'" "colonFree str'"
       "fingerprint (numToString e) b = fingerprint str' b'"
       "body_zip b' = Some z'" "body_products b' = Some wanted'" "availableFor z' wanted' \<noteq> []"
    unfolding eligibleKey_def by blast
  from fingerprint_fields [OF ok o(1) cf o(2) o(3)] zw o(4,5) have "z = z'" "wanted = wanted'"
    by simp_all
  with none o(6) show False by simp
qed

lemma all_restricted:
  "availableFor z wanted = [] \<longleftrightarrow> (\<forall>p \<in> set wanted. isRestricted (getStateFromZip z) p)"
  by (auto simp: availableFor_def availableProducts_def restrictedProducts_def filter_empty_conv)

lemma digit_clean: "n < 10 \<Longrightarrow> ''0123456789'' ! n \<noteq> CHR '':''"
proof -
  assume "n < 10"
  then have "''0123456789'' ! n \<in> set ''0123456789''" by (intro nth_mem) simp
  then show ?thesis by auto
qed

lemma decimal_clean: "CHR '':'' \<notin> set (decimal n)"
proof (induction n rule: decimal.induct)
  case (1 n)
  show ?case
  proof (cases "n < 10")
    case True
    then show ?thesis using digit_clean [of n] by (subst decimal.simps) simp
  next
    case False
    have "n mod 10 < 10" by simp
    with False 1 digit_clean [of "n mod 10"] show ?thesis
      by (subst decimal.simps) simp
  qed
qed

lemma demo_colonFree: "colonFree demoToString"
  by (simp add: colonFree_def demoToString_def decimal_clean)

lemma demoEnv_fields [simp]:
  "numToString demoEnv = demoToString" "get_fails demoEnv = False" "set_fails demoEnv = False"
  "now demoEnv = 0" "callProvider demoEnv = getQuotesFromProvider 2026"
  by (simp_all add: demoEnv_def simulated_def)

lemma memoryOnly_reachable: "reachable memoryOnly"
proof -
  have "reachable (\<lparr>isConnected = False, client = None, memoryCache = None\<rparr>
      \<lparr>memoryCache := Some \<lparr>mstore = Map.empty, timers = []\<rparr>, isConnected := False\<rparr>)"
    by (intro reachable.connect_failed reachable.constructed) simp
  then show ?thesis by (simp add: memoryOnly_def)
qed

lemma gap_valid: "validateQuoteRequest gapRaw = Inr gapBody"
  by (simp add: validateQuoteRequest_def gapRaw_def gapBody_def valid_vin_def valid_zip_def
      valid_mileage_def valid_price_def valid_products_def parse_product_def is_digit_def
      MAX_SAFE_INTEGER_def)

lemma gap_restricted_in_CA: "getStateFromZip ''90210'' = ''CA''" "isRestricted ''CA'' Gap"
  by (simp_all add: getStateFromZip_def zipPrefixes_def charAt_def isRestricted_def
      stateRestrictions_def)

section \<open>Replay of a cached response: lemmas\<close>

lemma live_get: "live k v T cs \<Longrightarrow> CacheService_get False cs k = Some v"
  by (auto simp: live_def usesRedis_def CacheService_get_def memory_get_def
      split: if_splits option.splits)

lemma usesRedis_elapse [simp]: "usesRedis (elapse t cs) = usesRedis cs"
  by (simp add: usesRedis_def elapse_def)

lemma live_elapse:
  assumes "live k v T cs" and "t < T"
  shows "live k v T (elapse t cs)"
proof (cases "usesRedis cs")
  case True
  with assms show ?thesis
    by (auto simp: live_def elapse_def redis_expire_def usesRedis_def)
next
  case False
  with assms obtain mc where mc: "memoryCache cs = Some mc" "mstore mc k = Some v"
    and timer: "(T, k) \<in> set (timers mc)"
    and late: "\<forall>entry \<in> set (timers mc). snd entry = k \<longrightarrow> T \<le> fst entry"
    by (auto simp: live_def)
  from late assms(2) have nodue: "\<not> list_ex (\<lambda>(t', k'). k' = k \<and> t' \<le> t) (timers mc)"
    by (fastforce simp: list_ex_iff)
  have mem: "memoryCache (elapse t cs) = Some (fire_timers t mc)"
    using mc by (simp add: elapse_def)
  have still: "\<not> usesRedis (elapse t cs)" using False by simp
  have "mstore (fire_timers t mc) k = Some v
       \<and> (T, k) \<in> set (timers (fire_timers t mc))
       \<and> (\<forall>entry \<in> set (timers (fire_timers t mc)). snd entry = k \<longrightarrow> T \<le> fst entry)"
    using mc late nodue timer assms(2) by (auto simp: fire_timers_def)
  with mem still show ?thesis by (simp add: live_def)
qed

lemma usesRedis_set [simp]:
  "usesRedis (snd (CacheService_set fails t cs k v ttl)) = usesRedis cs"
  by (auto simp: usesRedis_def CacheService_set_def memory_fallback_def
      split: option.splits)

lemma live_set:
  assumes "live k v T cs" and "k' \<noteq> k"
  shows "live k v T (snd (CacheService_set False t cs k' v' ttl))"
  using assms
  by (auto simp: live_def usesRedis_def CacheService_set_def memory_fallback_def memory_set_def
      split: option.splits if_splits)


lemma live_request:
  assumes lv: "live k v T cs" and calm: "calm e"
  shows "live k v T (cache (postQuotes e cs raw))"
proof (cases "validateQuoteRequest raw")
  case (Inl err)
  with lv show ?thesis by (simp add: postQuotes_invalid)
next
  case (Inr b)
  from validated_fields [OF Inr] obtain z wanted where
    zw: "body_zip b = Some z" "body_products b = Some wanted" by auto
  from calm have flags: "get_fails e = False" "set_fails e = False" by (simp_all add: calm_def)
  show ?thesis
  proof (cases "cacheMiss e cs b")
    case False
    then obtain cached where
      "CacheService_get (get_fails e) cs (fingerprint (numToString e) b) = Some cached"
      by (auto simp: cacheMiss_def)
    from getQuotes_hit [OF Inr this] lv show ?thesis
      by (simp add: postQuotes_valid [OF Inr])
  next
    case True
    with live_get [OF lv] flags have other: "fingerprint (numToString e) b \<noteq> k"
      by (auto simp: cacheMiss_def)
    note out = getQuotes_miss [OF Inr True zw]
    show ?thesis
    proof (cases "availableFor z wanted = []")
      case True
      with out lv show ?thesis by (simp add: postQuotes_valid [OF Inr])
    next
      case False
      with out flags obtain resp where
        "cache (postQuotes e cs raw) =
           snd (CacheService_set False (now e) cs (fingerprint (numToString e) b) resp 600)"
        by (simp add: postQuotes_valid [OF Inr])
      with live_set [OF lv other] show ?thesis by simp
    qed
  qed
qed

lemma live_served:
  "live k v T cs \<Longrightarrow> calm e \<Longrightarrow> now e < T \<Longrightarrow> live k v T (served e raw cs)"
  unfolding served_def by (intro live_request live_elapse)

lemma live_run:
  "live k v T cs \<Longrightarrow> \<forall>(e, raw) \<in> set between. calm e \<and> now e < T \<Longrightarrow>
   live k v T (run between cs)"
proof (induction between arbitrary: cs)
  case Nil
  then show ?case by simp
next
  case (Cons step between)
  obtain e raw where step: "step = (e, raw)" by (cases step)
  from Cons.prems step have "live k v T (served e raw cs)"
    by (intro live_served) auto
  with Cons step show ?case by simp
qed

lemma first_write:
  assumes "caching cs k"
  shows "live k v (t + ttl) (snd (CacheService_set False t cs k v ttl))"
proof (cases "usesRedis cs")
  case True
  then show ?thesis
    by (auto simp: live_def usesRedis_def CacheService_set_def)
next
  case False
  with assms(1) obtain mc where mc: "memoryCache cs = Some mc"
    and notimer: "\<forall>entry \<in> set (timers mc). snd entry \<noteq> k"
    by (auto simp: caching_def list_all_iff split: option.splits)
  have "\<not> usesRedis (snd (CacheService_set False t cs k v ttl))" using False by simp
  moreover have "memoryCache (snd (CacheService_set False t cs k v ttl)) =
      Some (memory_set t k v ttl mc)"
    using False mc by (auto simp: usesRedis_def CacheService_set_def memory_fallback_def
        split: option.splits)
  ultimately show ?thesis
    using notimer by (auto simp: live_def memory_set_def)
qed

lemma first_request_writes:
  assumes "validateQuoteRequest raw1 = Inr b1"
    and "body_zip b1 = Some z" and "body_products b1 = Some wanted"
    and "availableFor z wanted \<noteq> []"
    and "cacheMiss e1 cs b1" and "calm e1"
  shows "\<exists>resp. postQuotes e1 cs raw1 =
      \<lparr>response = Json200 resp, called = getEligibleProviders (availableFor z wanted),
       cache = snd (CacheService_set False (now e1) cs (fingerprint (numToString e1) b1) resp 600)\<rparr>"
  using getQuotes_miss [OF assms(1) assms(5) assms(2,3)] assms(4,6)
  by (simp add: postQuotes_valid [OF assms(1)] calm_def)

text \<open>
  The entry that a computed request writes is live for 600 seconds, whatever calm requests
  are handled in that time.
\<close>

lemma entry_live:
  assumes "validateQuoteRequest raw1 = Inr b1"
    and "body_zip b1 = Some z" and "body_products b1 = Some wanted"
    and "availableFor z wanted \<noteq> []"
    and "cacheMiss e1 cs b1" and "caching cs (fingerprint (numToString e1) b1)"
    and "calm e1"
    and "\<forall>(e, raw) \<in> set between. calm e \<and> now e < now e1 + 600"
  shows "\<exists>resp. response (postQuotes e1 cs raw1) = Json200 resp
      \<and> live (fingerprint (numToString e1) b1) resp (now e1 + 600)
            (run between (cache (postQuotes e1 cs raw1)))"
proof -
  define k where "k = fingerprint (numToString e1) b1"
  from first_request_writes [OF assms(1-5,7)] obtain resp where
    first: "postQuotes e1 cs raw1 =
      \<lparr>response = Json200 resp, called = getEligibleProviders (availableFor z wanted),
       cache = snd (CacheService_set False (now e1) cs k resp 600)\<rparr>"
    by (auto simp: k_def)
  from assms(6) have "caching cs k" by (simp add: k_def)
  then have "live k resp (now e1 + 600) (cache (postQuotes e1 cs raw1))"
    by (simp add: first first_write)
  then have "live k resp (now e1 + 600) (run between (cache (postQuotes e1 cs raw1)))"
    using assms(8) by (rule live_run)
  with first show ?thesis by (simp add: k_def)
qed

lemma lookup_replays:
  assumes "validateQuoteRequest raw1 = Inr b1" and "validateQuoteRequest raw2 = Inr b2"
    and "fingerprint (numToString e2) b2 = fingerprint (numToString e1) b1"
    and "body_zip b1 = Some z" and "body_products b1 = Some wanted"
    and "availableFor z wanted \<noteq> []"
    and "cacheMiss e1 cs b1" and "caching cs (fingerprint (numToString e1) b1)"
    and "calm e1" and "calm e2"
    and "\<forall>(e, raw) \<in> set between. calm e \<and> now e < now e1 + 600"
    and "now e2 < now e1 + 600"
  shows "response (postQuotes e2 (elapse (now e2) (run between (cache (postQuotes e1 cs raw1)))) raw2)
           = response (postQuotes e1 cs raw1)"
proof -
  from assms(10) have flags: "get_fails e2 = False" by (simp add: calm_def)
  from entry_live [OF assms(1,4-9,11)] obtain resp where
    first: "response (postQuotes e1 cs raw1) = Json200 resp"
    and "live (fingerprint (numToString e1) b1) resp (now e1 + 600)
           (run between (cache (postQuotes e1 cs raw1)))"
    by blast
  then have "live (fingerprint (numToString e1) b1) resp (now e1 + 600)
      (elapse (now e2) (run between (cache (postQuotes e1 cs raw1))))"
    using assms(12) by (intro live_elapse)
  then have "CacheService_get (get_fails e2)
      (elapse (now e2) (run between (cache (postQuotes e1 cs raw1))))
      (fingerprint (numToString e2) b2) = Some resp"
    by (simp add: flags assms(3) live_get)
  from getQuotes_hit [OF assms(2) this] first show ?thesis
    by (simp add: postQuotes_valid [OF assms(2)])
qed


lemma simulated_fields [simp]:
  "numToString (simulated str y t) = str" "get_fails (simulated str y t) = False"
  "set_fails (simulated str y t) = False" "now (simulated str y t) = t"
  "callProvider (simulated str y t) = getQuotesFromProvider y"
  by (simp_all add: simulated_def)

lemma calm_simulated [simp]: "calm (simulated str y t)"
  by (simp add: calm_def)

lemma memoryOnly_miss: "cacheMiss e memoryOnly b"
  by (simp add: cacheMiss_def CacheService_get_def memoryOnly_def memory_get_def)

lemma memoryOnly_caching: "caching memoryOnly k"
  by (simp add: caching_def usesRedis_def memoryOnly_def)

lemma sentinel_collision:
  "raw_dealer_id noDealerRaw = None
   \<and> (\<exists>env qs. response (postQuotes midEnv
                    (elapse 100 (cache (postQuotes demoEnv memoryOnly noneDealerRaw))) noDealerRaw)
                  = Json200 env
        \<and> (Tire, qs) \<in> set (buckets env) \<and> length qs = 4
        \<and> ''Dealer Recommended'' \<in> set (tags (qs ! 2)))"
proof -
  define b1 where "b1 = demoBody\<lparr>body_dealer_id := Some (DealerStr ''none'')\<rparr>"
  define b2 where "b2 = demoBody\<lparr>body_dealer_id := None\<rparr>"
  have ok1: "validateQuoteRequest noneDealerRaw = Inr b1"
    by (simp add: validateQuoteRequest_def noneDealerRaw_def b1_def demoRaw_def demoBody_def
        valid_vin_def valid_zip_def valid_mileage_def valid_price_def valid_products_def
        parse_product_def is_digit_def MAX_SAFE_INTEGER_def)
  have ok2: "validateQuoteRequest noDealerRaw = Inr b2"
    by (simp add: validateQuoteRequest_def noDealerRaw_def b2_def demoRaw_def demoBody_def
        valid_vin_def valid_zip_def valid_mileage_def valid_price_def valid_products_def
        parse_product_def is_digit_def MAX_SAFE_INTEGER_def)
  have key: "fingerprint (numToString midEnv) b2 = fingerprint (numToString demoEnv) b1"
    by (simp add: fingerprint_def cacheKeyOf_def dealerOrNone_def b1_def b2_def demoBody_def
        midEnv_def demoEnv_def)
  have z: "body_zip b1 = Some ''60601''" and w: "body_products b1 = Some [Tire, Dent]"
    by (simp_all add: b1_def demoBody_def)
  have av: "availableFor ''60601'' [Tire, Dent] \<noteq> []" by (simp add: demo_available)
  have calm1: "calm demoEnv" and calm2: "calm midEnv"
    by (simp_all add: demoEnv_def midEnv_def)
  have between: "\<forall>(e, raw) \<in> set []. calm e \<and> now e < now demoEnv + 600" by simp
  have late: "now midEnv < now demoEnv + 600" by (simp add: midEnv_def demoEnv_def)
  have same: "response (postQuotes midEnv
                (elapse 100 (cache (postQuotes demoEnv memoryOnly noneDealerRaw))) noDealerRaw)
              = response (postQuotes demoEnv memoryOnly noneDealerRaw)"
    using lookup_replays [OF ok1 ok2 key z w av memoryOnly_miss memoryOnly_caching calm1 calm2
        between late]
    by (simp add: midEnv_def)
  have fresh: "cacheMiss demoEnv memoryOnly b1" by (rule memoryOnly_miss)
  from getQuotes_miss [OF ok1 fresh z w] obtain env where
    resp: "response (getQuotes demoEnv memoryOnly b1) = Json200 env"
    and bucket: "(Tire, tagQuotes (body_dealer_id b1) (fanoutBucket Tire (fanoutOf demoEnv b1)))
        \<in> set (buckets env)"
    by (simp add: demo_available in_addTags_tabulate keyOrder_def)
  define qs where "qs = tagQuotes (body_dealer_id b1) (fanoutBucket Tire (fanoutOf demoEnv b1))"
  have len4: "length (fanoutBucket Tire (fanoutOf demoEnv b1)) = 4"
    by (rule tire_bucket_length [OF ok1 w])
  then have two: "2 < length (fanoutBucket Tire (fanoutOf demoEnv b1))" by simp
  have d: "truthy_dealer (body_dealer_id b1)" by (simp add: b1_def)
  have tag: "''Dealer Recommended'' \<in> set (tags (qs ! 2))"
    unfolding qs_def tags_tagQuotes [OF fanoutBucket_fresh two] using d two by simp
  have "raw_dealer_id noDealerRaw = None" by (simp add: noDealerRaw_def)
  with same resp bucket len4 tag show ?thesis
    by (auto simp: postQuotes_valid [OF ok1] qs_def)
qed

section \<open>Every response was computed: lemmas\<close>

lemma storedValues_get:
  "CacheService_get fails cs k = Some v \<Longrightarrow> v \<in> storedValues cs"
  by (auto simp: CacheService_get_def storedValues_def memory_get_def ran_def image_iff
      split: option.splits if_splits)

lemma ran_upd_subset: "ran (m(k \<mapsto> v)) \<subseteq> insert v (ran m)"
  by (auto simp: ran_def split: if_splits)

lemma set_client:
  "client (snd (CacheService_set fails t cs k v ttl)) = client cs
   \<or> (\<exists>r. client cs = Some r
          \<and> client (snd (CacheService_set fails t cs k v ttl)) = Some (r(k \<mapsto> (v, t + ttl))))"
  by (simp add: CacheService_set_def memory_fallback_def split: option.splits)

lemma set_memory:
  "memoryCache (snd (CacheService_set fails t cs k v ttl)) = memoryCache cs
   \<or> (\<exists>mc. memoryCache cs = Some mc
          \<and> memoryCache (snd (CacheService_set fails t cs k v ttl)) =
              Some (memory_set t k v ttl mc))"
  by (simp add: CacheService_set_def memory_fallback_def split: option.splits)

lemma storedValues_parts:
  "storedValues cs = redisValues (client cs) \<union> memoryValues (memoryCache cs)"
  by (simp add: storedValues_def redisValues_def memoryValues_def)

lemma redisValues_upd:
  "redisValues (Some (r(k \<mapsto> (v, x)))) \<subseteq> insert v (redisValues (Some r))"
proof
  fix w assume "w \<in> redisValues (Some (r(k \<mapsto> (v, x))))"
  then obtain p where "p \<in> ran (r(k \<mapsto> (v, x)))" "w = fst p"
    by (auto simp: redisValues_def)
  with ran_upd_subset [of r k "(v, x)"] show "w \<in> insert v (redisValues (Some r))"
    by (auto simp: redisValues_def)
qed

lemma memoryValues_set:
  "memoryValues (Some (memory_set t k v ttl mc)) \<subseteq> insert v (memoryValues (Some mc))"
  using ran_upd_subset [of "mstore mc" k v] by (simp add: memoryValues_def memory_set_def)

lemma storedValues_set:
  "storedValues (snd (CacheService_set fails t cs k v ttl)) \<subseteq> insert v (storedValues cs)"
proof -
  have "redisValues (client (snd (CacheService_set fails t cs k v ttl)))
      \<subseteq> insert v (redisValues (client cs))"
  proof -
    from set_client [of fails t cs k v ttl] show ?thesis
    proof (elim disjE exE conjE)
      assume "client (snd (CacheService_set fails t cs k v ttl)) = client cs"
      then show ?thesis by auto
    next
      fix r assume "client cs = Some r"
        "client (snd (CacheService_set fails t cs k v ttl)) = Some (r(k \<mapsto> (v, t + ttl)))"
      with redisValues_upd [of r k v "t + ttl"] show ?thesis by simp
    qed
  qed
  moreover have "memoryValues (memoryCache (snd (CacheService_set fails t cs k v ttl)))
      \<subseteq> insert v (memoryValues (memoryCache cs))"
  proof -
    from set_memory [of fails t cs k v ttl] show ?thesis
    proof (elim disjE exE conjE)
      assume "memoryCache (snd (CacheService_set fails t cs k v ttl)) = memoryCache cs"
      then show ?thesis by auto
    next
      fix mc assume "memoryCache cs = Some mc"
        "memoryCache (snd (CacheService_set fails t cs k v ttl)) = Some (memory_set t k v ttl mc)"
      with memoryValues_set [of t k v ttl mc] show ?thesis by simp
    qed
  qed
  ultimately show ?thesis
    unfolding storedValues_parts by blast
qed

lemma storedValues_elapse: "storedValues (elapse t cs) \<subseteq> storedValues cs"
proof -
  have a: "ran (redis_expire t r) \<subseteq> ran r" for r :: "'a redis"
    by (auto simp: ran_def redis_expire_def split: option.splits if_splits)
  have b: "ran (mstore (fire_timers t mc)) \<subseteq> ran (mstore mc)" for mc :: "'a memory_cache"
    by (auto simp: ran_def fire_timers_def split: if_splits)
  have "redisValues (client (elapse t cs)) \<subseteq> redisValues (client cs)"
    using a by (cases "client cs") (auto simp: elapse_def redisValues_def)
  moreover have "memoryValues (memoryCache (elapse t cs)) \<subseteq> memoryValues (memoryCache cs)"
    using b by (cases "memoryCache cs") (auto simp: elapse_def memoryValues_def)
  ultimately show ?thesis
    unfolding storedValues_parts by blast
qed

lemma computedResponseI:
  "validateQuoteRequest raw = Inr b \<Longrightarrow> cacheMiss e cs b \<Longrightarrow>
   response (getQuotes e cs b) = Json200 env \<Longrightarrow> computedResponse env"
  unfolding computedResponse_def by (intro exI conjI)

lemma storedValues_request:
  assumes inv: "\<forall>v \<in> storedValues cs. computedResponse v"
  shows "\<forall>v \<in> storedValues (cache (postQuotes e cs raw)). computedResponse v"
proof (cases "validateQuoteRequest raw")
  case (Inl err)
  with inv show ?thesis by (simp add: postQuotes_invalid)
next
  case (Inr b)
  from validated_fields [OF Inr] obtain z wanted where
    zw: "body_zip b = Some z" "body_products b = Some wanted" by auto
  show ?thesis
  proof (cases "cacheMiss e cs b")
    case False
    then obtain cached where
      "CacheService_get (get_fails e) cs (fingerprint (numToString e) b) = Some cached"
      by (auto simp: cacheMiss_def)
    from getQuotes_hit [OF Inr this] inv show ?thesis
      by (simp add: postQuotes_valid [OF Inr])
  next
    case True
    note out = getQuotes_miss [OF Inr True zw]
    show ?thesis
    proof (cases "availableFor z wanted = []")
      case True
      with out inv show ?thesis by (simp add: postQuotes_valid [OF Inr])
    next
      case False
      with out obtain resp where resp: "response (getQuotes e cs b) = Json200 resp"
        and c: "cache (postQuotes e cs raw) =
           snd (CacheService_set (set_fails e) (now e) cs (fingerprint (numToString e) b) resp 600)"
        by (simp add: postQuotes_valid [OF Inr])
      from Inr True resp have "computedResponse resp"
        by (rule computedResponseI)
      moreover from c
        storedValues_set [of "set_fails e" "now e" cs "fingerprint (numToString e) b" resp 600]
      have "storedValues (cache (postQuotes e cs raw)) \<subseteq> insert resp (storedValues cs)"
        by simp
      ultimately show ?thesis using inv by blast
    qed
  qed
qed

lemma reachable_values: "reachable cs \<Longrightarrow> \<forall>v \<in> storedValues cs. computedResponse v"
proof (induction rule: reachable.induct)
  case constructed
  show ?case by (simp add: storedValues_def)
next
  case (client_created cs)
  have "storedValues (cs\<lparr>client := Some Map.empty\<rparr>) \<subseteq> storedValues cs"
    by (simp add: storedValues_parts redisValues_def)
  with client_created.IH show ?case by blast
next
  case (connect_failed cs)
  have "storedValues (cs\<lparr>memoryCache := Some \<lparr>mstore = Map.empty, timers = []\<rparr>,
      isConnected := False\<rparr>) \<subseteq> storedValues cs"
    by (simp add: storedValues_parts memoryValues_def)
  with connect_failed.IH show ?case by blast
next
  case (connection_event cs up)
  have "storedValues (cs\<lparr>isConnected := up\<rparr>) = storedValues cs"
    by (simp add: storedValues_def)
  with connection_event.IH show ?case by simp
next
  case (time_passes cs t)
  with storedValues_elapse [of t cs] show ?case by (meson subsetD)
next
  case (request cs e raw)
  from request.IH show ?case by (rule storedValues_request)
qed

lemma every_response_was_computed:
  assumes "reachable cs" and "response (postQuotes e cs raw) = Json200 env"
  shows "computedResponse env"
proof (cases "validateQuoteRequest raw")
  case (Inl err)
  with assms(2) show ?thesis by (simp add: postQuotes_invalid)
next
  case (Inr b)
  show ?thesis
  proof (cases "cacheMiss e cs b")
    case True
    from assms(2) have "response (getQuotes e cs b) = Json200 env"
      by (simp add: postQuotes_valid [OF Inr])
    with Inr True show ?thesis by (rule computedResponseI)
  next
    case False
    then obtain cached where
      hit: "CacheService_get (get_fails e) cs (fingerprint (numToString e) b) = Some cached"
      by (auto simp: cacheMiss_def)
    from getQuotes_hit [OF Inr hit] assms(2) have "env = cached"
      by (simp add: postQuotes_valid [OF Inr])
    with storedValues_get [OF hit] reachable_values [OF assms(1)] show ?thesis by blast
  qed
qed


section \<open>The example requests: buckets\<close>

lemma tire_dent_example:
  assumes "validateQuoteRequest raw = Inr b" and "body_products b = Some [Tire, Dent]"
  shows "\<exists>env. response (getQuotes e freshCache b) = Json200 env
      \<and> (Tire, bucketOf (response (getQuotes e freshCache b)) Tire) \<in> set (buckets env)
      \<and> (Dent, bucketOf (response (getQuotes e freshCache b)) Dent) \<in> set (buckets env)
      \<and> bucketOf (response (getQuotes e freshCache b)) Tire =
          tagQuotes (body_dealer_id b) (fanoutBucket Tire (fanoutOf e b))
      \<and> bucketOf (response (getQuotes e freshCache b)) Dent =
          tagQuotes (body_dealer_id b) (fanoutBucket Dent (fanoutOf e b))"
proof -
  from validated_fields [OF assms(1)] obtain z where z: "body_zip b = Some z" by auto
  from getQuotes_miss [OF assms(1) fresh_miss z assms(2), of e] show ?thesis
    by (simp add: demo_available addTags_def tabulate_def keyOrder_def)
qed

lemma dent_bucket_length:
  assumes "validateQuoteRequest raw = Inr b" and "body_products b = Some [Tire, Dent]"
  shows "length (fanoutBucket Dent (fanoutOf failingEnv b)) = 1"
proof -
  from tire_dent_request [OF assms] obtain v vd m z st d pr where
    "requestOf b = Some (providerRequestOf v vd m z st d pr [Tire, Dent])" by blast
  with registered_B_D show ?thesis
    by (auto simp: fanoutOf_def getQuotesFromAllProviders_def eligible_tire_dent
        failingEnv_def demoEnv_def simulated_def providerB_quotes fanoutBucket_def
        contribution_def)
qed

lemma noDealer_valid: "validateQuoteRequest noDealerRaw = Inr noDealerBody"
  by (simp add: validateQuoteRequest_def noDealerRaw_def noDealerBody_def demoRaw_def demoBody_def
      valid_vin_def valid_zip_def valid_mileage_def valid_price_def valid_products_def
      parse_product_def is_digit_def MAX_SAFE_INTEGER_def)

lemma noDealer_products: "body_products noDealerBody = Some [Tire, Dent]"
  by (simp add: noDealerBody_def demoBody_def)

lemma demoTires:
  "\<exists>env. response (getQuotes demoEnv freshCache demoBody) = Json200 env
      \<and> (Tire, demoTires) \<in> set (buckets env)"
  "length demoTires = 4"
  using tire_dent_example [OF demo_valid demo_products, of demoEnv]
    tire_bucket_length [OF demo_valid demo_products]
  by (auto simp: demoTires_def)

lemma failingDents:
  "\<exists>env. response (getQuotes failingEnv freshCache demoBody) = Json200 env
      \<and> (Dent, failingDents) \<in> set (buckets env)"
  "length failingDents = 1"
  using tire_dent_example [OF demo_valid demo_products, of failingEnv]
    dent_bucket_length [OF demo_valid demo_products]
  by (auto simp: failingDents_def)

lemma noDealerTires:
  "\<exists>env. response (getQuotes demoEnv freshCache noDealerBody) = Json200 env
      \<and> (Tire, noDealerTires) \<in> set (buckets env)"
  "length noDealerTires = 4"
  using tire_dent_example [OF noDealer_valid noDealer_products, of demoEnv]
    tire_bucket_length [OF noDealer_valid noDealer_products]
  by (auto simp: noDealerTires_def)

lemma directTires:
  "directTires = tagQuotes (Some (DealerStr ''direct'')) (fanoutBucket Tire (fanoutOf demoEnv directBody))"
  "length (fanoutBucket Tire (fanoutOf demoEnv directBody)) = 4"
  using tire_dent_example [OF direct_valid direct_products, of demoEnv]
    tire_bucket_length [OF direct_valid direct_products]
  by (auto simp: directTires_def postQuotes_valid [OF direct_valid] directBody_def)











lemma big_valid: "validateQuoteRequest bigRaw = Inr bigBody"
  by (simp add: validateQuoteRequest_def bigRaw_def bigBody_def demoRaw_def demoBody_def
      valid_vin_def valid_zip_def valid_mileage_def valid_price_def valid_products_def
      parse_product_def is_digit_def MAX_SAFE_INTEGER_def List.map_filter_simps)

lemma eligible_gap: "getEligibleProviders [Gap] = [''providerA'', ''providerC'']"
  by (simp add: getEligibleProviders_def providers_def js_sort_def fsub_def)

lemma gap_quotes:
  assumes "opt_products (options request) = [Gap]" and "opt_price (options request) = Some x"
    and "x \<noteq> 0" and "providerId = ''providerA'' \<or> providerId = ''providerC''"
  shows "getQuotesFromProvider y providerId request =
     Inr \<lparr>quotes = [gapPremium providerId (the (map_of providers providerId)) (fmul x (double 0.02)),
                     gapStandard providerId (the (map_of providers providerId)) (fmul x (double 0.02))],
          resp_eligibility = ''eligible'',
          resp_disclaimer = ''Coverage is subject to terms and conditions of the service contract.''\<rparr>"
  using assms
  by (auto simp: getQuotesFromProvider_def simulateProviderResponse_def providers_def
      generateGapQuotes_def Let_def)

lemma gap_product [simp]:
  "product_type (gapPremium pid cfg x) = Gap" "product_type (gapStandard pid cfg x) = Gap"
  "product_id (gapPremium pid cfg x) = pid @ ''_gap_premium''"
  "product_id (gapStandard pid cfg x) = pid @ ''_gap_standard''"
  by (simp_all add: gapPremium_def gapStandard_def)

lemma big_prices:
  "price (toAggregated (the (map_of providers ''providerA''))
            (gapPremium ''providerA'' (the (map_of providers ''providerA''))
               (fmul 8047282048391080 (double (1 / 50))))) = 3708187567898611 / 16"
  "price (toAggregated (the (map_of providers ''providerA''))
            (gapStandard ''providerA'' (the (map_of providers ''providerA''))
               (fmul 8047282048391080 (double (1 / 50))))) = 6180312613164365 / 32"
  "price (toAggregated (the (map_of providers ''providerC''))
            (gapPremium ''providerC'' (the (map_of providers ''providerC''))
               (fmul 8047282048391080 (double (1 / 50))))) = 7725390766455439 / 32"
  "price (toAggregated (the (map_of providers ''providerC''))
            (gapStandard ''providerC'' (the (map_of providers ''providerC''))
               (fmul 8047282048391080 (double (1 / 50))))) = 6437825638712881 / 32"
  by code_simp+

lemma priceSummary_tagQuotes:
  "\<forall>q \<in> set qs. is_double (price q) \<Longrightarrow>
   map priceSummary (tagQuotes d qs) = map priceSummary (sort_key price qs)"
proof -
  assume doubles: "\<forall>q \<in> set qs. is_double (price q)"
  have "priceSummary q = priceSummary (untag q)" for q
    by (simp add: priceSummary_def untag_def)
  then have "map priceSummary xs = map priceSummary (map untag xs)" for xs
    by (induction xs) simp_all
  from this [of "tagQuotes d qs"] this [of "sort_key price qs"] show ?thesis
    by (simp only: map_untag_tagQuotes sortByPrice_sort_key [OF doubles])
qed

lemma big_bucket:
  "map priceSummary (bucketOf (response (postQuotes demoEnv freshCache bigRaw)) Gap) =
     [(''providerA_gap_standard'', 6180312613164365 / 32),
      (''providerC_gap_standard'', 6437825638712881 / 32),
      (''providerA_gap_premium'', 3708187567898611 / 16),
      (''providerC_gap_premium'', 7725390766455439 / 32)]"
proof -
  have zw: "body_zip bigBody = Some ''60601''" "body_products bigBody = Some [Gap]"
    by (simp_all add: bigBody_def demoBody_def)
  have avail: "availableFor ''60601'' [Gap] = [Gap]"
    by (simp add: availableFor_def availableProducts_def restrictedProducts_def isRestricted_def
        stateRestrictions_def getStateFromZip_def zipPrefixes_def charAt_def)
  from validated_request [OF big_valid] obtain request where
    req: "requestOf bigBody = Some request" by blast
  with zw avail have opts: "opt_products (options request) = [Gap]"
    "opt_price (options request) = Some 8047282048391080"
    by (auto simp: requestOf_def bigBody_def demoBody_def providerRequestOf_def
        split: option.splits)
  have bucket: "bucketOf (response (postQuotes demoEnv freshCache bigRaw)) Gap =
      tagQuotes (body_dealer_id bigBody)
        (fanoutBucket Gap (getQuotesFromAllProviders (getQuotesFromProvider 2026) request))"
    using getQuotes_miss [OF big_valid fresh_miss zw, of demoEnv]
    by (simp add: postQuotes_valid [OF big_valid] avail keyOrder_def addTags_def tabulate_def
        fanoutOf_request [OF req])
  have registered: "map_of providers ''providerA'' \<noteq> None" "map_of providers ''providerC'' \<noteq> None"
    by (simp_all add: providers_def)
  have pre: "fanoutBucket Gap (getQuotesFromAllProviders (getQuotesFromProvider 2026) request) =
      [toAggregated (the (map_of providers ''providerA''))
         (gapPremium ''providerA'' (the (map_of providers ''providerA''))
            (fmul 8047282048391080 (double (1 / 50)))),
       toAggregated (the (map_of providers ''providerA''))
         (gapStandard ''providerA'' (the (map_of providers ''providerA''))
            (fmul 8047282048391080 (double (1 / 50)))),
       toAggregated (the (map_of providers ''providerC''))
         (gapPremium ''providerC'' (the (map_of providers ''providerC''))
            (fmul 8047282048391080 (double (1 / 50)))),
       toAggregated (the (map_of providers ''providerC''))
         (gapStandard ''providerC'' (the (map_of providers ''providerC''))
            (fmul 8047282048391080 (double (1 / 50))))]"
    by (simp add: fanoutBucket_calls opts eligible_gap gap_quotes [OF opts] option.case_eq_if
        registered)
  have "map priceSummary (bucketOf (response (postQuotes demoEnv freshCache bigRaw)) Gap) =
      map priceSummary (sort_key price
        (fanoutBucket Gap (getQuotesFromAllProviders (getQuotesFromProvider 2026) request)))"
    by (simp only: bucket priceSummary_tagQuotes [OF fanoutBucket_doubles])
  then show ?thesis
    unfolding pre by (simp add: big_prices priceSummary_def)
qed

lemma big_retail:
  "map retail_price
     (quotesOf (generateGapQuotes ''providerC''
        \<lparr>opt_price = Some 8047282048391080, opt_products = [Gap]\<rparr>)) =
     [193134769161386, 160945640967822]"
  by code_simp

lemma demo_requestOf: "requestOf demoBody = Some demoRequest"
  by (simp add: requestOf_def demoBody_def demoRequest_def vin17_found demo_available
      decodeModelYear_def decodeMake_def decodeModel_def yearCodes_def makeCodes_def modelMap_def
      getStateFromZip_def zipPrefixes_def charAt_def substring_def)

lemma providerB_tire_prices:
  "price (toAggregated (the (map_of providers ''providerB''))
            (tirePremium ''providerB'' (the (map_of providers ''providerB'')))) = 2277 / 4"
  "price (toAggregated (the (map_of providers ''providerB''))
            (tireBasic ''providerB'' (the (map_of providers ''providerB'')))) = 1817 / 4"
  by code_simp+

lemma aq_id_untag [simp]: "aq_id (untag q) = aq_id q"
  by (simp add: untag_def)

lemma demo_retail:
  assumes "getQuotesFromProvider 2026 providerId demoRequest = Inr r" and "rq \<in> set (quotes r)"
  shows "retail_price rq = 495 \<or> retail_price rq = 395"
  using assms
  by (auto simp: getQuotesFromProvider_def simulateProviderResponse_def providers_def
      demoRequest_def providerRequestOf_def generateTireQuotes_def generateDentQuotes_def
      tirePremium_def tireBasic_def dentRepair_def split: option.splits if_splits)

section \<open>The claims\<close>

text \<open>
  C1, as the code has it. In a response that the aggregation computes for a validated
  request, every quote of every bucket comes from a quote that a provider returned for this
  request, of the product of the bucket, and its price is
  \<open>Math.round(retail_price * markup * 100) / 100\<close> in double arithmetic, with the markup
  of that provider in the registry, which is the double of 1.15, 1.2, 1.25 or 1.3. When
  the retail price is an integer of magnitude at most \<open>10\<^sup>1\<^sup>2\<close>, the price is the double
  nearest to the exact product of the retail price and the decimal markup, a number of
  at most two decimal places.
\<close>

theorem price_is_marked_up_retail_price:
  assumes "validateQuoteRequest raw = Inr b" and "cacheMiss e cs b"
    and "response (getQuotes e cs b) = Json200 env"
    and "(p, qs) \<in> set (buckets env)" and "q \<in> set qs"
  shows "\<exists>request providerId cfg r rq M.
           requestOf b = Some request \<and> map_of providers providerId = Some cfg
         \<and> callProvider e providerId request = Inr r \<and> rq \<in> set (quotes r)
         \<and> product_type rq = p \<and> aq_id q = product_id rq
         \<and> price q = fdiv (Math_round (fmul (fmul (retail_price rq) (markup cfg)) 100)) 100
         \<and> M \<in> {115, 120, 125, 130} \<and> markup cfg = double (of_int M / 100)
         \<and> (retail_price rq \<in> \<int> \<and> \<bar>retail_price rq\<bar> \<le> 10 ^ 12 \<longrightarrow>
               price q = double (retail_price rq * (of_int M / 100)))"
proof -
  from validated_request [OF assms(1)] obtain request where
    req: "requestOf b = Some request" by blast
  from computed_bucket [OF assms(1-4)] have
    qs: "qs = tagQuotes (body_dealer_id b)
                (fanoutBucket p (getQuotesFromAllProviders (callProvider e) request))"
    by (auto simp: fanoutOf_request [OF req])
  from in_tagged_bucket assms(5) qs obtain q0 where
    q0: "q0 \<in> set (fanoutBucket p (getQuotesFromAllProviders (callProvider e) request))"
    and same: "untag q = untag q0"
    by blast
  from in_fanoutBucket [OF q0] obtain providerId cfg r rq where
    src: "map_of providers providerId = Some cfg" "callProvider e providerId request = Inr r"
      "rq \<in> set (quotes r)" "product_type rq = p" "q0 = toAggregated cfg rq"
    by blast
  from untag_eq [OF same] src(5) price_toAggregated [OF registry_markup [OF src(1)], of rq]
  have pr: "price q = fdiv (Math_round (fmul (fmul (retail_price rq) (markup cfg)) 100)) 100"
    and ident: "aq_id q = product_id rq"
    by simp_all
  from registry_decimal [OF src(1)] obtain M where
    M: "markup cfg = double (of_int M / 100)" "M \<in> {115, 120, 125, 130}" by blast
  from M(2) have range: "100 \<le> M" "M \<le> 130" by auto
  have "price q = double (retail_price rq * (of_int M / 100))"
    if int: "retail_price rq \<in> \<int>" and small: "\<bar>retail_price rq\<bar> \<le> 10 ^ 12"
    using pr unfolding M(1) by (rule marked_up_integer [OF int small range])
  with req src pr ident M show ?thesis by blast
qed

theorem price_is_marked_up_retail_price_witness:
  "demoTires ! 0 \<in> set demoTires
   \<and> (\<exists>providerId cfg r rq M.
           map_of providers providerId = Some cfg
         \<and> callProvider demoEnv providerId demoRequest = Inr r \<and> rq \<in> set (quotes r)
         \<and> product_type rq = Tire \<and> aq_id (demoTires ! 0) = product_id rq
         \<and> price (demoTires ! 0) =
             fdiv (Math_round (fmul (fmul (retail_price rq) (markup cfg)) 100)) 100
         \<and> M \<in> {115, 120, 125, 130} \<and> markup cfg = double (of_int M / 100)
         \<and> retail_price rq \<in> \<int> \<and> \<bar>retail_price rq\<bar> \<le> 10 ^ 12
         \<and> price (demoTires ! 0) = double (retail_price rq * (of_int M / 100)))"
proof -
  from demoTires(1) obtain env where
    resp: "response (getQuotes demoEnv freshCache demoBody) = Json200 env"
    and bucket: "(Tire, demoTires) \<in> set (buckets env)"
    by blast
  have q: "demoTires ! 0 \<in> set demoTires" by (simp add: demoTires(2))
  from price_is_marked_up_retail_price [OF demo_valid fresh_miss resp bucket q]
  obtain request providerId cfg r rq M where
    req: "requestOf demoBody = Some request"
    and src: "map_of providers providerId = Some cfg"
      "callProvider demoEnv providerId request = Inr r" "rq \<in> set (quotes r)"
      "product_type rq = Tire" "aq_id (demoTires ! 0) = product_id rq"
      "price (demoTires ! 0) =
         fdiv (Math_round (fmul (fmul (retail_price rq) (markup cfg)) 100)) 100"
      "M \<in> {115, 120, 125, 130}" "markup cfg = double (of_int M / 100)"
    and exact: "retail_price rq \<in> \<int> \<and> \<bar>retail_price rq\<bar> \<le> 10 ^ 12 \<longrightarrow>
      price (demoTires ! 0) = double (retail_price rq * (of_int M / 100))"
    by blast
  from req demo_requestOf have request: "request = demoRequest" by simp
  from src(2,3) demo_retail [of providerId r rq]
  have "retail_price rq = 495 \<or> retail_price rq = 395"
    by (simp add: request)
  then have small: "retail_price rq \<in> \<int> \<and> \<bar>retail_price rq\<bar> \<le> 10 ^ 12"
    by auto
  with exact have "price (demoTires ! 0) = double (retail_price rq * (of_int M / 100))"
    by blast
  with q src small show ?thesis unfolding request by blast
qed

text \<open>
  C1 as stated fails for large prices, where the three roundings of the double arithmetic
  exceed half a hundredth. For a vehicle price of 8047282048391080 the premium GAP quote
  of provider C has the retail price 193134769161386; with the markup 1.25 the product is
  241418461451732.5 exactly, a number of one decimal place, and the price in the response
  is 241418461451732.46875.
\<close>

theorem large_price_counterexample:
  "map priceSummary (bucketOf (response (postQuotes demoEnv freshCache bigRaw)) Gap) =
     [(''providerA_gap_standard'', 6180312613164365 / 32),
      (''providerC_gap_standard'', 6437825638712881 / 32),
      (''providerA_gap_premium'', 3708187567898611 / 16),
      (''providerC_gap_premium'', 7725390766455439 / 32)]
   \<and> map retail_price
       (quotesOf (generateGapQuotes ''providerC''
          \<lparr>opt_price = Some 8047282048391080, opt_products = [Gap]\<rparr>)) =
       [193134769161386, 160945640967822]
   \<and> markup (the (map_of providers ''providerC'')) = 5 / 4
   \<and> 193134769161386 * (5 / 4) = (482836922903465 / 2 :: rat)
   \<and> 7725390766455439 / 32 - 482836922903465 / 2 = (- 1 / 32 :: rat)"
  using big_bucket big_retail by (simp add: providers_def literals)

text \<open>
  C2. In a response that the aggregation computes for a validated request, the prices of
  every bucket ascend, and for every price the quotes of that price stand, tags apart, in
  the order in which the fan-out produced them: providers in the order of the calls, the
  quotes of a provider in the order it returned them. Tagging changes no price and no
  position, so the order is that of the sort that precedes it.
\<close>

theorem buckets_sorted_stably:
  assumes "validateQuoteRequest raw = Inr b" and "cacheMiss e cs b"
    and "response (getQuotes e cs b) = Json200 env"
    and "(p, qs) \<in> set (buckets env)"
  shows "sorted (map price qs)
       \<and> (\<forall>k. filter (\<lambda>q. price q = k) (map untag qs) =
               filter (\<lambda>q. price q = k) (fanoutBucket p (fanoutOf e b)))"
proof -
  define pre where "pre = fanoutBucket p (fanoutOf e b)"
  from computed_bucket [OF assms] have qs: "qs = tagQuotes (body_dealer_id b) pre"
    by (auto simp: pre_def)
  have fresh: "\<forall>q \<in> set (sort_key price pre). tags q = []"
    using fanoutBucket_fresh [of p "fanoutOf e b"] by (simp add: pre_def)
  have doubles: "\<forall>q \<in> set pre. is_double (price q)"
    by (simp add: pre_def fanoutBucket_doubles)
  have "map price qs = map price (sort_key price pre)"
    by (simp add: qs map_price_tagQuotes sortByPrice_sort_key [OF doubles])
  then have sorted: "sorted (map price qs)" by simp
  have "map untag qs = sort_key price pre"
    by (simp add: qs map_untag_tagQuotes sortByPrice_sort_key [OF doubles] untag_fresh [OF fresh])
  then have "filter (\<lambda>q. price q = k) (map untag qs) = filter (\<lambda>q. price q = k) pre" for k
    by (simp add: sort_key_stable)
  with sorted show ?thesis by (simp add: pre_def)
qed

theorem buckets_sorted_stably_witness:
  "length demoTires = 4 \<and> sorted (map price demoTires)
   \<and> (\<forall>k. filter (\<lambda>q. price q = k) (map untag demoTires) =
           filter (\<lambda>q. price q = k) (fanoutBucket Tire (fanoutOf demoEnv demoBody)))"
proof -
  from demoTires(1) obtain env where
    resp: "response (getQuotes demoEnv freshCache demoBody) = Json200 env"
    and bucket: "(Tire, demoTires) \<in> set (buckets env)"
    by blast
  from buckets_sorted_stably [OF demo_valid fresh_miss resp bucket] demoTires(2)
  show ?thesis by blast
qed

text \<open>
  C3. In every response that the aggregation computes for a validated request, each
  non-empty bucket has the tag "Best Value" on the quote at index 0 and the tag
  "Most Popular" on the quote at index min(1, length - 1); the only quote of a
  one-quote bucket carries both, in this order.
\<close>

theorem best_value_and_most_popular:
  assumes "validateQuoteRequest raw = Inr b" and "cacheMiss e cs b"
    and "response (getQuotes e cs b) = Json200 env"
    and "(p, qs) \<in> set (buckets env)" and "qs \<noteq> []"
  shows "''Best Value'' \<in> set (tags (qs ! 0))
       \<and> ''Most Popular'' \<in> set (tags (qs ! min 1 (length qs - 1)))
       \<and> (length qs = 1 \<longrightarrow> tags (qs ! 0) = [''Best Value'', ''Most Popular''])"
proof -
  from computed_bucket [OF assms(1-4)] obtain pre where
    qs: "qs = tagQuotes (body_dealer_id b) pre" and fresh: "\<forall>q \<in> set pre. tags q = []"
    using fanoutBucket_fresh by blast
  from qs assms(5) have len: "0 < length pre" by (cases pre) (auto simp: tagQuotes_def)
  define j where "j = min 1 (length pre - 1)"
  from len have j: "j < length pre" by (cases pre) (auto simp: j_def)
  have best: "''Best Value'' \<in> set (tags (tagQuotes (body_dealer_id b) pre ! 0))"
    by (simp add: tags_tagQuotes [OF fresh len])
  have popular: "''Most Popular'' \<in> set (tags (tagQuotes (body_dealer_id b) pre ! j))"
    unfolding tags_tagQuotes [OF fresh j] by (simp add: j_def)
  have single: "tags (tagQuotes (body_dealer_id b) pre ! 0) = [''Best Value'', ''Most Popular'']"
    if "length pre = 1"
    using that by (simp add: tags_tagQuotes [OF fresh len])
  from best popular single show ?thesis
    unfolding qs length_tagQuotes j_def [symmetric] by blast
qed

theorem best_value_and_most_popular_witness:
  "length demoTires = 4
   \<and> ''Best Value'' \<in> set (tags (demoTires ! 0)) \<and> ''Most Popular'' \<in> set (tags (demoTires ! 1))
   \<and> length failingDents = 1 \<and> tags (failingDents ! 0) = [''Best Value'', ''Most Popular'']"
proof -
  from demoTires(1) obtain env where
    resp: "response (getQuotes demoEnv freshCache demoBody) = Json200 env"
    and bucket: "(Tire, demoTires) \<in> set (buckets env)"
    by blast
  from demoTires(2) have ne: "demoTires \<noteq> []" by auto
  from best_value_and_most_popular [OF demo_valid fresh_miss resp bucket ne] demoTires(2)
  have four: "''Best Value'' \<in> set (tags (demoTires ! 0))
      \<and> ''Most Popular'' \<in> set (tags (demoTires ! 1))"
    by simp
  from failingDents(1) obtain env' where
    resp': "response (getQuotes failingEnv freshCache demoBody) = Json200 env'"
    and bucket': "(Dent, failingDents) \<in> set (buckets env')"
    by blast
  from failingDents(2) have ne': "failingDents \<noteq> []" by auto
  from best_value_and_most_popular [OF demo_valid fresh_miss resp' bucket' ne'] failingDents(2)
  have "tags (failingDents ! 0) = [''Best Value'', ''Most Popular'']"
    by simp
  with four demoTires(2) failingDents(2) show ?thesis by simp
qed

text \<open>
  C4, as the code has it. In a response that the aggregation computes for a validated
  request: when the dealer identifier is a non-empty string (the string "direct"
  included) and the bucket has more than two quotes, the quote at index 2 and no other
  carries "Dealer Recommended"; when the dealer identifier is missing, null or empty, or
  the bucket has at most two quotes, no quote of the bucket carries it.
\<close>

theorem dealer_recommended_third:
  assumes "validateQuoteRequest raw = Inr b" and "cacheMiss e cs b"
    and "response (getQuotes e cs b) = Json200 env"
    and "(p, qs) \<in> set (buckets env)"
  shows "(truthy_dealer (body_dealer_id b) \<and> 2 < length qs \<longrightarrow>
            (\<forall>i < length qs. (''Dealer Recommended'' \<in> set (tags (qs ! i))) = (i = 2)))
       \<and> (\<not> truthy_dealer (body_dealer_id b) \<or> length qs \<le> 2 \<longrightarrow>
            (\<forall>q \<in> set qs. ''Dealer Recommended'' \<notin> set (tags q)))"
proof -
  define pre where "pre = fanoutBucket p (fanoutOf e b)"
  from computed_bucket [OF assms] have qs: "qs = tagQuotes (body_dealer_id b) pre"
    by (auto simp: pre_def)
  have fresh: "\<forall>q \<in> set pre. tags q = []"
    using fanoutBucket_fresh by (simp add: pre_def)
  have at: "(''Dealer Recommended'' \<in> set (tags (qs ! i))) =
      (truthy_dealer (body_dealer_id b) \<and> 2 < length qs \<and> i = 2)" if "i < length qs" for i
    using that by (simp add: qs tags_tagQuotes [OF fresh])
  show ?thesis
  proof (intro conjI impI allI ballI)
    fix i assume "truthy_dealer (body_dealer_id b) \<and> 2 < length qs" "i < length qs"
    then show "(''Dealer Recommended'' \<in> set (tags (qs ! i))) = (i = 2)"
      by (simp add: at)
  next
    fix q assume no: "\<not> truthy_dealer (body_dealer_id b) \<or> length qs \<le> 2" and "q \<in> set qs"
    then obtain i where "i < length qs" "q = qs ! i" by (auto simp: in_set_conv_nth)
    with no show "''Dealer Recommended'' \<notin> set (tags q)"
      by (auto simp: at)
  qed
qed

theorem dealer_recommended_third_witness:
  "length demoTires = 4
   \<and> ''Dealer Recommended'' \<notin> set (tags (demoTires ! 0))
   \<and> ''Dealer Recommended'' \<notin> set (tags (demoTires ! 1))
   \<and> ''Dealer Recommended'' \<in> set (tags (demoTires ! 2))
   \<and> ''Dealer Recommended'' \<notin> set (tags (demoTires ! 3))
   \<and> length noDealerTires = 4
   \<and> ''Dealer Recommended'' \<notin> set (tags (noDealerTires ! 2))"
proof -
  from demoTires(1) obtain env where
    resp: "response (getQuotes demoEnv freshCache demoBody) = Json200 env"
    and bucket: "(Tire, demoTires) \<in> set (buckets env)"
    by blast
  have d: "truthy_dealer (body_dealer_id demoBody)" by (simp add: demoBody_def)
  from dealer_recommended_third [OF demo_valid fresh_miss resp bucket] d demoTires(2)
  have at: "\<forall>i < 4. (''Dealer Recommended'' \<in> set (tags (demoTires ! i))) = (i = 2)" by simp
  from noDealerTires(1) obtain env' where
    resp': "response (getQuotes demoEnv freshCache noDealerBody) = Json200 env'"
    and bucket': "(Tire, noDealerTires) \<in> set (buckets env')"
    by blast
  have d': "\<not> truthy_dealer (body_dealer_id noDealerBody)" by (simp add: noDealerBody_def)
  from dealer_recommended_third [OF noDealer_valid fresh_miss resp' bucket'] d'
  have "\<forall>q \<in> set noDealerTires. ''Dealer Recommended'' \<notin> set (tags q)" by simp
  moreover have "noDealerTires ! 2 \<in> set noDealerTires" by (simp add: noDealerTires(2))
  ultimately have "''Dealer Recommended'' \<notin> set (tags (noDealerTires ! 2))" by blast
  with at demoTires(2) noDealerTires(2) show ?thesis by simp
qed

text \<open>
  C4 as stated fails for the dealer identifier "direct": the handler tests only that
  the identifier is truthy, so the third tire quote of such a request carries
  "Dealer Recommended".
\<close>

theorem direct_dealer_counterexample:
  "raw_dealer_id directRaw = Some (DealerStr ''direct'')
   \<and> length directTires = 4
   \<and> tags (directTires ! 2) = [''Dealer Recommended'']"
proof -
  have two: "2 < length (fanoutBucket Tire (fanoutOf demoEnv directBody))"
    by (simp add: directTires(2))
  have "tags (directTires ! 2) = [''Dealer Recommended'']"
    unfolding directTires(1) tags_tagQuotes [OF fanoutBucket_fresh two]
    by (simp add: directTires(2))
  moreover have "raw_dealer_id directRaw = Some (DealerStr ''direct'')"
    by (simp add: directRaw_def)
  ultimately show ?thesis by (simp add: directTires)
qed

text \<open>
  C5. In every state the service can reach, a validated request all of whose requested
  products are restricted in the state of its ZIP code is answered with status 200 by an
  envelope without buckets, whose meta says "ineligible" and lists the requested
  products as restricted together with the state; no provider is called and the cache is
  left as it was.
\<close>

theorem all_restricted_short_circuit:
  assumes "reachable cs" and "validateQuoteRequest raw = Inr b"
    and "colonFree (numToString e)"
    and "body_zip b = Some z" and "body_products b = Some wanted"
    and "\<forall>p \<in> set wanted. isRestricted (getStateFromZip z) p"
  shows "getQuotes e cs b =
     \<lparr>response =
        Json200 \<lparr>buckets = [],
                 meta = \<lparr>vehicle_eligibility = ''ineligible'',
                         coverage_disclaimer = ''No products available in your state.'',
                         state_restrictions =
                           Some \<lparr>restricted_products = wanted,
                                 restricted_state = getStateFromZip z\<rparr>\<rparr>\<rparr>,
      called = [], cache = cs\<rparr>"
proof -
  from assms(6) have none: "availableFor z wanted = []" by (simp add: all_restricted)
  from assms(6) have all: "restrictedProducts (getStateFromZip z) wanted = wanted"
    by (simp add: restrictedProducts_def)
  note miss = reachable_miss [OF assms(1-5) none]
  from getQuotes_miss [OF assms(2) miss assms(4,5)] none all show ?thesis
    by (simp add: ineligibleEnvelope_def)
qed

theorem all_restricted_short_circuit_witness:
  "getQuotes demoEnv (cache (postQuotes demoEnv memoryOnly demoRaw)) gapBody =
     \<lparr>response =
        Json200 \<lparr>buckets = [],
                 meta = \<lparr>vehicle_eligibility = ''ineligible'',
                         coverage_disclaimer = ''No products available in your state.'',
                         state_restrictions =
                           Some \<lparr>restricted_products = [Gap], restricted_state = ''CA''\<rparr>\<rparr>\<rparr>,
      called = [], cache = cache (postQuotes demoEnv memoryOnly demoRaw)\<rparr>"
proof -
  have r: "reachable (cache (postQuotes demoEnv memoryOnly demoRaw))"
    by (intro reachable.request memoryOnly_reachable) (simp add: demo_colonFree)
  have cf: "colonFree (numToString demoEnv)" by (simp add: demo_colonFree)
  have z: "body_zip gapBody = Some ''90210''" and w: "body_products gapBody = Some [Gap]"
    by (simp_all add: gapBody_def)
  have all: "\<forall>p \<in> set [Gap]. isRestricted (getStateFromZip ''90210'') p"
    by (simp add: gap_restricted_in_CA)
  from all_restricted_short_circuit [OF r gap_valid cf z w all] show ?thesis
    by (simp add: gap_restricted_in_CA)
qed

lemma vsc_fields [simp]:
  "retail_price (vscPremium pid cfg x) = Math_round x"
  "dealer_cost (vscPremium pid cfg x) = Math_round (fmul x (double 0.6))"
  "quote_name (vscPremium pid cfg x) = ''Premium Coverage''"
  "retail_price (vscStandard pid cfg x) = Math_round x"
  "dealer_cost (vscStandard pid cfg x) = Math_round (fmul x (double 0.6))"
  "quote_name (vscStandard pid cfg x) = ''Standard Coverage''"
  "retail_price (vscBasic pid cfg x) = Math_round x"
  "dealer_cost (vscBasic pid cfg x) = Math_round (fmul x (double 0.6))"
  "quote_name (vscBasic pid cfg x) = ''Basic Coverage''"
  by (simp_all add: vscPremium_def vscStandard_def vscBasic_def)

lemma vscTiers_cases:
  "(mk, base) \<in> set (vscTiers vehicleAge m) \<Longrightarrow>
   (mk = vscPremium \<and> base = 800) \<or> (mk = vscStandard \<and> base = 700) \<or> (mk = vscBasic \<and> base = 500)"
  by (auto simp: vscTiers_def split: if_splits)

text \<open>
  C6, as the code has it. Every quote of \<open>generateVscQuotes\<close> belongs to one of the three
  tiers, with base 800, 700 or 500. In double arithmetic, each operation rounded, the age
  factor is \<open>1 + age * 0.1\<close>, the mileage factor \<open>1 + (mileage / 20000) * 0.15\<close> and the
  amount \<open>base * ageFactor * mileageFactor\<close>; the retail price is the rounded amount, and the
  dealer cost is the rounded product of that same unrounded amount and 0.6.
\<close>

theorem vsc_prices_from_base:
  assumes "generateVscQuotes currentYear providerId v = Inr qs" and "q \<in> set qs"
  shows "\<exists>m base.
       v_mileage v = Some m
     \<and> (quote_name q, base) \<in> {(''Premium Coverage'', 800), (''Standard Coverage'', 700),
                                 (''Basic Coverage'', 500)}
     \<and> retail_price q =
         Math_round
           (fmul (fmul base (fadd 1 (fmul (of_int (currentYear - v_year v)) (double 0.1))))
              (fadd 1 (fmul (fdiv (of_int m) 20000) (double 0.15))))
     \<and> dealer_cost q =
         Math_round
           (fmul
              (fmul (fmul base (fadd 1 (fmul (of_int (currentYear - v_year v)) (double 0.1))))
                 (fadd 1 (fmul (fdiv (of_int m) 20000) (double 0.15))))
              (double 0.6))"
proof (cases "v_mileage v")
  case None
  with assms show ?thesis by (simp add: generateVscQuotes_def)
next
  case (Some m)
  with assms obtain cfg where
    qs: "qs = map (\<lambda>(mk, base). mk providerId cfg
                 (fmul (fmul base (ageFactor (currentYear - v_year v))) (mileageFactor m)))
              (vscTiers (currentYear - v_year v) m)"
    by (auto simp: generateVscQuotes_def Let_def split: if_splits option.splits)
  with assms(2) obtain mk base where
    tier: "(mk, base) \<in> set (vscTiers (currentYear - v_year v) m)"
    and q: "q = mk providerId cfg
                  (fmul (fmul base (ageFactor (currentYear - v_year v))) (mileageFactor m))"
    by auto
  from vscTiers_cases [OF tier] q Some show ?thesis
    by (auto simp: ageFactor_def mileageFactor_def)
qed

lemma demo_vsc:
  "generateVscQuotes 2026 ''providerA'' demoVehicle =
     Inr (map (\<lambda>(mk, base). mk ''providerA'' (the (map_of providers ''providerA''))
                 (fmul (fmul base (ageFactor 6)) (mileageFactor 14000)))
            [(vscPremium, 800), (vscStandard, 700), (vscBasic, 500)])"
  by (simp add: generateVscQuotes_def demoVehicle_def vscTiers_def providers_def)

lemma demo_amounts:
  "Math_round (fmul (fmul 800 (ageFactor 6)) (mileageFactor 14000)) = 1414"
  "Math_round (fmul (fmul 700 (ageFactor 6)) (mileageFactor 14000)) = 1238"
  "Math_round (fmul (fmul 500 (ageFactor 6)) (mileageFactor 14000)) = 884"
  "Math_round (fmul (fmul (fmul 800 (ageFactor 6)) (mileageFactor 14000)) (double (3 / 5))) = 849"
  "Math_round (fmul (fmul (fmul 700 (ageFactor 6)) (mileageFactor 14000)) (double (3 / 5))) = 743"
  "Math_round (fmul (fmul (fmul 500 (ageFactor 6)) (mileageFactor 14000)) (double (3 / 5))) = 530"
  by code_simp+

lemma round_examples:
  "Math_round (fmul 1414 (double (3 / 5))) = 848"
  "Math_round (fmul 1238 (double (3 / 5))) = 743"
  "Math_round (fmul 884 (double (3 / 5))) = 530"
  by code_simp+

text \<open>
  The rounding of the operations shows: for a vehicle of model year 2014 with 34000 miles,
  quoted in 2026, the exact amount of the basic tier is 1380.5, the amount in doubles is
  just below it, and the retail price is 1380.
\<close>

lemma vsc_rounding_example:
  "500 * (1 + 12 * (1 / 10)) * (1 + (34000 / 20000) * (3 / 20)) = (2761 / 2 :: rat)"
  "fmul (fmul 500 (ageFactor 12)) (mileageFactor 34000) < 2761 / 2"
  "Math_round (fmul (fmul 500 (ageFactor 12)) (mileageFactor 34000)) = 1380"
  by code_simp+

theorem vsc_prices_from_base_witness:
  "quote_name (hd (quotesOf (generateVscQuotes 2026 ''providerA'' demoVehicle))) = ''Premium Coverage''
   \<and> retail_price (hd (quotesOf (generateVscQuotes 2026 ''providerA'' demoVehicle))) = 1414
   \<and> dealer_cost (hd (quotesOf (generateVscQuotes 2026 ''providerA'' demoVehicle))) = 849"
proof -
  obtain q qs where gen: "generateVscQuotes 2026 ''providerA'' demoVehicle = Inr (q # qs)"
    and nm: "quote_name q = ''Premium Coverage''"
    by (simp add: demo_vsc)
  from vsc_prices_from_base [OF gen, of q] nm
  have "retail_price q = Math_round (fmul (fmul 800 (ageFactor 6)) (mileageFactor 14000))
      \<and> dealer_cost q =
          Math_round (fmul (fmul (fmul 800 (ageFactor 6)) (mileageFactor 14000)) (double 0.6))"
    by (auto simp: demoVehicle_def ageFactor_def mileageFactor_def)
  with gen nm show ?thesis by (simp add: demo_amounts round_examples)
qed

text \<open>
  C6 as stated fails: the dealer cost is not the rounded 0.6 of the retail price. For a
  vehicle of model year 2020 with 14000 miles, quoted in 2026, the premium tier has the
  unrounded amount 1414.4, hence the retail price 1414 and the dealer cost
  round(848.64) = 849, where round(1414 * 0.6) = round(848.4) = 848.
\<close>

theorem vsc_dealer_cost_counterexample:
  "map vscSummary (quotesOf (generateVscQuotes 2026 ''providerA'' demoVehicle)) =
     [(''Premium Coverage'', 1414, 849, 848),
      (''Standard Coverage'', 1238, 743, 743),
      (''Basic Coverage'', 884, 530, 530)]"
  by (simp add: demo_vsc vscSummary_def demo_amounts round_examples)

text \<open>
  C7. The fan-out has one settled entry for each eligible provider, in the order of the
  calls: the result of the call when it returned, and \<open>null\<close> when it threw. Every
  validated request is answered with status 200, with the response it would get if each
  failed call had returned no quotes. When the response is computed, every eligible
  provider has been called, and each bucket holds, tags apart and sorted by price, the
  aggregated quotes of its product from all the calls that returned, in the order of the
  calls, and nothing from a call that threw.
\<close>

theorem provider_failures_absorbed:
  "map fst (getQuotesFromAllProviders call request) =
     getEligibleProviders (opt_products (options request))
   \<and> (\<forall>providerId \<in> set (getEligibleProviders (opt_products (options request))).
         (providerId, case call providerId request of Inl err \<Rightarrow> None | Inr r \<Rightarrow> Some r)
           \<in> set (getQuotesFromAllProviders call request))
   \<and> (validateQuoteRequest raw = Inr b \<longrightarrow>
         status_of (response (getQuotes e cs b)) = 200
       \<and> response (getQuotes e cs b) =
           response (getQuotes (e\<lparr>callProvider := absorbFailures (callProvider e)\<rparr>) cs b)
       \<and> (\<forall>asked env p qs.
             cacheMiss e cs b \<and> requestOf b = Some asked
             \<and> response (getQuotes e cs b) = Json200 env \<and> (p, qs) \<in> set (buckets env) \<longrightarrow>
               called (getQuotes e cs b) = getEligibleProviders (opt_products (options asked))
             \<and> map untag qs =
                 sort_key price
                   (concat
                      (map (\<lambda>providerId.
                              case callProvider e providerId asked of
                                Inl err \<Rightarrow> []
                              | Inr r \<Rightarrow>
                                  (case map_of providers providerId of
                                     None \<Rightarrow> []
                                   | Some cfg \<Rightarrow>
                                       map (toAggregated cfg)
                                         (filter (\<lambda>q. product_type q = p) (quotes r))))
                         (getEligibleProviders (opt_products (options asked)))))))"
proof (intro conjI allI impI ballI)
  show "map fst (getQuotesFromAllProviders call request) =
     getEligibleProviders (opt_products (options request))"
    by (rule fanout_keys)
next
  fix providerId
  assume "providerId \<in> set (getEligibleProviders (opt_products (options request)))"
  then show "(providerId, case call providerId request of Inl err \<Rightarrow> None | Inr r \<Rightarrow> Some r)
           \<in> set (getQuotesFromAllProviders call request)"
    by (simp add: getQuotesFromAllProviders_def)
next
  assume ok: "validateQuoteRequest raw = Inr b"
  from validated_200 [OF ok, of e cs] show "status_of (response (getQuotes e cs b)) = 200"
    by auto
  from response_absorbed [OF ok, of e cs]
  show "response (getQuotes e cs b) =
     response (getQuotes (e\<lparr>callProvider := absorbFailures (callProvider e)\<rparr>) cs b)"
    by simp
  fix asked env p qs
  assume "cacheMiss e cs b \<and> requestOf b = Some asked
             \<and> response (getQuotes e cs b) = Json200 env \<and> (p, qs) \<in> set (buckets env)"
  then have miss: "cacheMiss e cs b" and req: "requestOf b = Some asked"
    and resp: "response (getQuotes e cs b) = Json200 env" and bucket: "(p, qs) \<in> set (buckets env)"
    by simp_all
  note merged = computed_bucket_merged [OF ok miss resp bucket req]
  from merged(1)
  show "called (getQuotes e cs b) = getEligibleProviders (opt_products (options asked))" .
  from merged(2)
  show "map untag qs =
          sort_key price
            (concat
               (map (\<lambda>providerId.
                       case callProvider e providerId asked of
                         Inl err \<Rightarrow> []
                       | Inr r \<Rightarrow>
                           (case map_of providers providerId of
                              None \<Rightarrow> []
                            | Some cfg \<Rightarrow>
                                map (toAggregated cfg)
                                  (filter (\<lambda>q. product_type q = p) (quotes r))))
                  (getEligibleProviders (opt_products (options asked)))))"
    by (simp only: fanoutBucket_calls)
qed

theorem provider_failures_absorbed_witness:
  "callProvider failingEnv ''providerD'' demoRequest = Inl (Error ''provider unavailable'')
   \<and> map fst (getQuotesFromAllProviders (callProvider failingEnv) demoRequest) =
       [''providerB'', ''providerD'']
   \<and> (''providerD'', None) \<in> set (getQuotesFromAllProviders (callProvider failingEnv) demoRequest)
   \<and> status_of (response (getQuotes failingEnv freshCache demoBody)) = 200
   \<and> response (getQuotes failingEnv freshCache demoBody) =
       response (getQuotes (failingEnv\<lparr>callProvider := absorbFailures (callProvider failingEnv)\<rparr>)
                   freshCache demoBody)
   \<and> called (getQuotes failingEnv freshCache demoBody) = [''providerB'', ''providerD'']
   \<and> map aq_id (bucketOf (response (getQuotes failingEnv freshCache demoBody)) Tire) =
       [''providerB_tire_basic'', ''providerB_tire_premium'']"
proof -
  have fail: "callProvider failingEnv ''providerD'' demoRequest = Inl (Error ''provider unavailable'')"
    by (simp add: failingEnv_def)
  have returned: "callProvider failingEnv ''providerB'' demoRequest =
      Inr \<lparr>quotes = [tirePremium ''providerB'' (the (map_of providers ''providerB'')),
                      tireBasic ''providerB'' (the (map_of providers ''providerB'')),
                      dentRepair ''providerB'' (the (map_of providers ''providerB''))],
           resp_eligibility = ''eligible'',
           resp_disclaimer = ''Coverage is subject to terms and conditions of the service contract.''\<rparr>"
    by (simp add: failingEnv_def demoRequest_def providerB_quotes)
  have el: "getEligibleProviders (opt_products (options demoRequest)) = [''providerB'', ''providerD'']"
    by (simp add: demoRequest_def eligible_tire_dent)
  have member: "''providerD'' \<in> set (getEligibleProviders (opt_products (options demoRequest)))"
    by (simp add: el)
  from tire_dent_example [OF demo_valid demo_products, of failingEnv] obtain env where
    resp: "response (getQuotes failingEnv freshCache demoBody) = Json200 env"
    and bucket: "(Tire, bucketOf (response (getQuotes failingEnv freshCache demoBody)) Tire)
                   \<in> set (buckets env)"
    by blast
  note absorbed = provider_failures_absorbed
    [of "callProvider failingEnv" demoRequest demoRaw demoBody failingEnv freshCache]
  from absorbed el
  have keys: "map fst (getQuotesFromAllProviders (callProvider failingEnv) demoRequest) =
       [''providerB'', ''providerD'']"
    by (simp only:)
  from absorbed member fail
  have none: "(''providerD'', None) \<in> set (getQuotesFromAllProviders (callProvider failingEnv) demoRequest)"
    by force
  from absorbed demo_valid
  have answered: "status_of (response (getQuotes failingEnv freshCache demoBody)) = 200
   \<and> response (getQuotes failingEnv freshCache demoBody) =
       response (getQuotes (failingEnv\<lparr>callProvider := absorbFailures (callProvider failingEnv)\<rparr>)
                   freshCache demoBody)"
    by blast
  from absorbed demo_valid fresh_miss [of failingEnv demoBody] demo_requestOf resp bucket
  have merged: "called (getQuotes failingEnv freshCache demoBody) =
        getEligibleProviders (opt_products (options demoRequest))
      \<and> map untag (bucketOf (response (getQuotes failingEnv freshCache demoBody)) Tire) =
          sort_key price
            (concat
               (map (\<lambda>providerId.
                       case callProvider failingEnv providerId demoRequest of
                         Inl err \<Rightarrow> []
                       | Inr r \<Rightarrow>
                           (case map_of providers providerId of
                              None \<Rightarrow> []
                            | Some cfg \<Rightarrow>
                                map (toAggregated cfg)
                                  (filter (\<lambda>q. product_type q = Tire) (quotes r))))
                  (getEligibleProviders (opt_products (options demoRequest)))))"
    by blast
  from merged have called: "called (getQuotes failingEnv freshCache demoBody) =
      [''providerB'', ''providerD'']"
    by (simp add: el)
  from merged
  have "map untag (bucketOf (response (getQuotes failingEnv freshCache demoBody)) Tire) =
      [toAggregated (the (map_of providers ''providerB''))
         (tireBasic ''providerB'' (the (map_of providers ''providerB''))),
       toAggregated (the (map_of providers ''providerB''))
         (tirePremium ''providerB'' (the (map_of providers ''providerB'')))]"
    by (simp add: el fail returned option.case_eq_if registered_B_D providerB_tire_prices)
  then have "map aq_id (map untag (bucketOf (response (getQuotes failingEnv freshCache demoBody)) Tire)) =
      [''providerB_tire_basic'', ''providerB_tire_premium'']"
    by (simp add: tirePremium_def tireBasic_def)
  then have ids: "map aq_id (bucketOf (response (getQuotes failingEnv freshCache demoBody)) Tire) =
      [''providerB_tire_basic'', ''providerB_tire_premium'']"
    by (simp add: comp_def)
  from fail keys none answered called ids show ?thesis by blast
qed



lemma status_badRequest [simp]: "res_status (errorHandler (Inl (badRequest msg))) = 400"
  by (simp add: badRequest_def errorHandler_def)


text \<open>
  C9, as the code has it. A body without \<open>vin\<close> or without \<open>zip\<close> is answered with status
  400. A body without \<open>products\<close> is answered as the same body with the product list
  \<open>['vsc']\<close> is. The handler itself, given a body without \<open>vin\<close>, \<open>zip\<close> or
  \<open>products\<close>, answers with status 400.
\<close>

theorem missing_vin_or_zip_rejected:
  "(raw_vin raw = None \<or> raw_zip raw = None \<longrightarrow>
      status_of (response (postQuotes e cs raw)) = 400)
   \<and> (raw_products raw = None \<longrightarrow>
      postQuotes e cs raw = postQuotes e cs (raw\<lparr>raw_products := Some [''vsc'']\<rparr>))
   \<and> (body_vin b = None \<or> body_zip b = None \<or> body_products b = None \<longrightarrow>
      status_of (response (getQuotes e cs b)) = 400)"
proof (intro conjI impI)
  assume "raw_vin raw = None \<or> raw_zip raw = None"
  then have "validateQuoteRequest raw = Inl (badRequest ''Invalid request data'')"
    by (auto simp: validateQuoteRequest_def valid_vin_def valid_zip_def)
  then show "status_of (response (postQuotes e cs raw)) = 400"
    by (simp add: postQuotes_def)
next
  assume "raw_products raw = None"
  then have "validateQuoteRequest raw = validateQuoteRequest (raw\<lparr>raw_products := Some [''vsc'']\<rparr>)"
    by (simp add: validateQuoteRequest_def valid_products_def parse_product_def
        List.map_filter_simps)
  then show "postQuotes e cs raw = postQuotes e cs (raw\<lparr>raw_products := Some [''vsc'']\<rparr>)"
    by (simp add: postQuotes_def)
next
  assume "body_vin b = None \<or> body_zip b = None \<or> body_products b = None"
  then show "status_of (response (getQuotes e cs b)) = 400"
    by (auto simp: getQuotes_def requiredFields_def split: option.splits)
qed

theorem missing_vin_or_zip_rejected_witness:
  "status_of (response (postQuotes demoEnv freshCache noVinRaw)) = 400
   \<and> postQuotes demoEnv freshCache noProductsRaw =
       postQuotes demoEnv freshCache (noProductsRaw\<lparr>raw_products := Some [''vsc'']\<rparr>)
   \<and> status_of (response (getQuotes demoEnv freshCache (demoBody\<lparr>body_products := None\<rparr>))) = 400"
  using missing_vin_or_zip_rejected [of noVinRaw demoEnv freshCache "demoBody\<lparr>body_products := None\<rparr>"]
    missing_vin_or_zip_rejected [of noProductsRaw demoEnv freshCache demoBody]
  by (simp add: noVinRaw_def noProductsRaw_def)

text \<open>
  C9 as stated fails for the product list: the schema replaces a missing list by the
  default \<open>['vsc']\<close>, and the request is answered with status 200.
\<close>

theorem missing_products_counterexample:
  "raw_products noProductsRaw = None
   \<and> status_of (response (postQuotes demoEnv freshCache noProductsRaw)) = 200"
proof -
  have ok: "validateQuoteRequest noProductsRaw = Inr (demoBody\<lparr>body_products := Some [Vsc]\<rparr>)"
    by (simp add: validateQuoteRequest_def noProductsRaw_def demoRaw_def demoBody_def valid_vin_def
        valid_zip_def valid_mileage_def valid_price_def valid_products_def is_digit_def
        MAX_SAFE_INTEGER_def)
  have none: "raw_products noProductsRaw = None"
    by (simp add: noProductsRaw_def)
  from validated_200 [OF ok, of demoEnv freshCache] none show ?thesis
    by (auto simp: postQuotes_valid [OF ok])
qed

text \<open>
  C10. For a VIN of 17 characters \<open>getVehicleDetails\<close> returns a vehicle, whose year, make
  and model are the defaults 2018, Ford and F-150 where the code is not in the table; and
  no request to the route is answered with the error "Invalid VIN or vehicle details not
  found".
\<close>

theorem vin_lookup_never_fails:
  "(length v = 17 \<longrightarrow>
      (\<exists>d. getVehicleDetails v = Some d \<and> vd_vin d = v
         \<and> (map_of yearCodes (charAt v 9) = None \<longrightarrow> vd_year d = 2018)
         \<and> (map_of makeCodes (charAt v 1) = None \<longrightarrow> vd_make d = ''Ford'')
         \<and> (map_of modelMap (substring v 3 6) = None \<longrightarrow> vd_model d = ''F-150'')))
   \<and> response (postQuotes e cs raw) \<noteq> NextApiError invalidVin"
proof
  show "length v = 17 \<longrightarrow>
      (\<exists>d. getVehicleDetails v = Some d \<and> vd_vin d = v
         \<and> (map_of yearCodes (charAt v 9) = None \<longrightarrow> vd_year d = 2018)
         \<and> (map_of makeCodes (charAt v 1) = None \<longrightarrow> vd_make d = ''Ford'')
         \<and> (map_of modelMap (substring v 3 6) = None \<longrightarrow> vd_model d = ''F-150''))"
    by (simp add: vin17_found decodeModelYear_def decodeMake_def decodeModel_def)
next
  show "response (postQuotes e cs raw) \<noteq> NextApiError invalidVin"
  proof (cases "validateQuoteRequest raw")
    case (Inl err)
    then show ?thesis
      by (simp add: postQuotes_invalid invalidVin_def badRequest_def)
  next
    case (Inr b)
    with validated_200 [OF Inr, of e cs] show ?thesis
      by (auto simp: postQuotes_valid)
  qed
qed

theorem vin_lookup_never_fails_witness:
  "getVehicleDetails ''1ZTZZZET5ZFC10312'' =
     Some \<lparr>vd_vin = ''1ZTZZZET5ZFC10312'', vd_year = 2018, vd_make = ''Ford'', vd_model = ''F-150'',
           vd_trim = ''XLT'', body_style = ''Sedan'', engine = ''2.0L I4'',
           transmission = ''Automatic''\<rparr>
   \<and> response (postQuotes demoEnv freshCache demoRaw) \<noteq> NextApiError invalidVin"
proof -
  have codes: "map_of yearCodes (charAt ''1ZTZZZET5ZFC10312'' 9) = None"
    "map_of makeCodes (charAt ''1ZTZZZET5ZFC10312'' 1) = None"
    "map_of modelMap (substring ''1ZTZZZET5ZFC10312'' 3 6) = None"
    by (simp_all add: yearCodes_def makeCodes_def modelMap_def charAt_def substring_def)
  have len: "length ''1ZTZZZET5ZFC10312'' = 17" by simp
  from vin_lookup_never_fails [of "''1ZTZZZET5ZFC10312''" demoEnv freshCache demoRaw] codes len
  obtain d where d: "getVehicleDetails ''1ZTZZZET5ZFC10312'' = Some d"
    "vd_vin d = ''1ZTZZZET5ZFC10312''" "vd_year d = 2018" "vd_make d = ''Ford''"
    "vd_model d = ''F-150''"
    and never: "response (postQuotes demoEnv freshCache demoRaw) \<noteq> NextApiError invalidVin"
    by blast
  from d(1) have "vd_trim d = ''XLT''" "body_style d = ''Sedan''" "engine d = ''2.0L I4''"
    "transmission d = ''Automatic''"
    by (auto simp: getVehicleDetails_def split: if_splits)
  with d never show ?thesis by (cases d) simp
qed

end
